theory Spec2Isabelle
  imports Main "HOL-Library.Multiset" "HOL-Library.Sublist" "HOL-Library.Word"
    "HOL-Library.Char_ord" "HOL-Library.List_Lexorder"
begin

section \<open>Data model of index.go\<close>

text \<open>
  Go strings are byte sequences; \<^typ>\<open>string\<close> (a list of \<^typ>\<open>char\<close>, each one byte) is
  the same thing, and \<^const>\<open>length\<close> is Go's \<open>len\<close>. Go's \<open>int\<close> fields are only
  compared, never computed with, so they are \<^typ>\<open>int\<close>.
\<close>

type_synonym CommaList = "string list"

type_synonym HexVal = "8 word list"

text \<open>
  \<open>DateVal\<close> embeds a \<open>time.Time\<close>. The only times this package builds are the results of
  parsing the layout \<open>2006-01-02\<close>: midnight UTC of a civil date. The model keeps the civil
  date.
\<close>

record DateVal =
  Year :: nat
  Month :: nat
  Day :: nat

record HexHash =
  Type :: string
  Data :: HexVal

record Apk =
  VName :: string
  VCode :: int
  Size :: int
  MinSdk :: int
  MaxSdk :: int
  ABIs :: CommaList
  ApkName :: string
  SrcName :: string
  Sig :: HexVal
  Added :: DateVal
  Perms :: CommaList
  Feats :: CommaList
  Hash :: HexHash

text \<open>
  \<open>CurApk\<close> is a \<open>*Apk\<close>. \<open>calcCurApk\<close> stores the address of its loop variable, which
  holds a copy of the visited element, so the pointer never aliases \<open>Apks\<close>: the model keeps
  the value it points to, \<open>None\<close> for \<open>nil\<close>.
\<close>

record App =
  ID :: string
  Name :: string
  Summary :: string
  Desc :: string
  License :: string
  Categs :: CommaList
  Website :: string
  Source :: string
  Tracker :: string
  Changelog :: string
  Donate :: string
  Bitcoin :: string
  Litecoin :: string
  Dogecoin :: string
  FlattrID :: string
  Apks :: "Apk list"
  CVName :: string
  CVCode :: int
  CurApk :: "Apk option"

record Repo =
  Repo_Name :: string
  Repo_PubKey :: string
  Repo_Timestamp :: int
  Repo_URL :: string
  Repo_Version :: int
  Repo_MaxAge :: int
  Repo_Description :: string

record Index =
  Repo :: Repo
  Apps :: "App list"

section \<open>calcCurApk\<close>

text \<open>
  The loop of \<open>calcCurApk\<close>: every visited package is stored in \<open>CurApk\<close>, and the walk
  stops at the first one with \<open>app.CVCode >= apk.VCode\<close>. The third argument is the value
  of \<open>app.CurApk\<close> so far.
\<close>

fun calcCurApk_loop :: "int \<Rightarrow> Apk list \<Rightarrow> Apk option \<Rightarrow> Apk option" where
  "calcCurApk_loop cvcode [] cur = cur"
| "calcCurApk_loop cvcode (apk # rest) cur =
     (if cvcode \<ge> VCode apk then Some apk else calcCurApk_loop cvcode rest (Some apk))"

definition calcCurApk :: "App \<Rightarrow> App" where
  "calcCurApk app = app\<lparr>CurApk := calcCurApk_loop (CVCode app) (Apks app) (CurApk app)\<rparr>"

text \<open>The order \<open>sort.Sort(apkList(...))\<close> establishes: version codes never increase.\<close>

definition sorted_desc :: "Apk list \<Rightarrow> bool" where
  "sorted_desc apks = sorted_wrt (\<lambda>a b. VCode a \<ge> VCode b) apks"

text \<open>Packages that carry nothing but a version name and a version code.\<close>

definition zero_DateVal :: DateVal where
  "zero_DateVal = \<lparr>Year = 1, Month = 1, Day = 1\<rparr>"

definition zero_Apk :: Apk where
  "zero_Apk = \<lparr>VName = [], VCode = 0, Size = 0, MinSdk = 0, MaxSdk = 0, ABIs = [],
     ApkName = [], SrcName = [], Sig = [], Added = zero_DateVal, Perms = [], Feats = [],
     Hash = \<lparr>Type = [], Data = []\<rparr>\<rparr>"

definition zero_App :: App where
  "zero_App = \<lparr>ID = [], Name = [], Summary = [], Desc = [], License = [], Categs = [],
     Website = [], Source = [], Tracker = [], Changelog = [], Donate = [], Bitcoin = [],
     Litecoin = [], Dogecoin = [], FlattrID = [], Apks = [], CVName = [], CVCode = 0,
     CurApk = None\<rparr>"

definition apk_of :: "string \<Rightarrow> int \<Rightarrow> Apk" where
  "apk_of vname vcode = zero_Apk\<lparr>VName := vname, VCode := vcode\<rparr>"

definition app_of :: "Apk list \<Rightarrow> int \<Rightarrow> App" where
  "app_of apks cvcode = zero_App\<lparr>Apks := apks, CVCode := cvcode\<rparr>"

section \<open>TextDesc\<close>

subsection \<open>What encoding/xml hands to the renderer\<close>

text \<open>
  \<open>xml.Decoder.Token\<close> is library code. The renderer sees it only through the pairs
  \<open>(token, err)\<close> it returns, so the model takes the sequence of those pairs for a
  description as given: a finite list (the reader is a finite string), after which the
  decoder reports \<open>io.EOF\<close>. A \<open>nil\<close> token is \<open>None\<close>, a \<open>nil\<close> error is \<open>None\<close>.
  The errors of the package: \<open>io.EOF\<close>, a syntax error of encoding/xml, the
  \<open>*time.ParseError\<close> of a date that does not parse, and the two errors of
  encoding/hex. \<open>Wrapped\<close> is an error that wraps another one with a message, as
  \<open>fmt.Errorf\<close> with \<open>%w\<close> makes; nothing in index.go builds one.
\<close>

datatype error =
    EOF
  | SyntaxError string
  | ParseError string
  | ErrLength
  | InvalidByteError char
  | Wrapped string error

record xml_Name =
  Space :: string
  Local :: string

record xml_Attr =
  Attr_Name :: xml_Name
  Attr_Value :: string

datatype Token =
    StartElement xml_Name "xml_Attr list"
  | EndElement xml_Name
  | CharData string
  | Comment string
  | ProcInst string string
  | Directive string

type_synonym Token_result = "Token option \<times> error option"

subsection \<open>fmt\<close>

text \<open>\<open>%d\<close> of \<open>fmt\<close>: decimal digits, a minus sign before a negative number.\<close>

fun showNat :: "nat \<Rightarrow> string" where
  "showNat n =
     (if n < 10 then [char_of (48 + n)] else showNat (n div 10) @ [char_of (48 + n mod 10)])"

definition showInt :: "int \<Rightarrow> string" where
  "showInt i = (if i < 0 then CHR ''-'' # showNat (nat (- i)) else showNat (nat i))"

subsection \<open>The renderer's state\<close>

text \<open>
  The local variables of \<open>TextDesc\<close> that live across tokens, and \<open>w\<close>, everything
  written to the writer so far.
\<close>

record render_state =
  w :: string
  firstParagraph :: bool
  linePrefix :: string
  colsUsed :: int
  links :: "string list"
  linked :: bool

definition init_state :: render_state where
  "init_state = \<lparr>w = [], firstParagraph = True, linePrefix = [], colsUsed = 0,
     links = [], linked = False\<rparr>"

subsection \<open>The wrapping loop of a text run\<close>

text \<open>
  The inner \<open>for i, c := range left\<close>: \<open>i\<close> is a byte offset. A space is the single
  byte 0x20, which never occurs inside a multi-byte rune, so walking bytes finds the same
  \<open>last\<close> as walking runes. Arguments: \<open>limit\<close>, the offset \<open>i\<close> of the next byte, the
  bytes from there on, and \<open>last\<close> so far (\<open>lst\<close>).
\<close>

fun scan_last :: "int \<Rightarrow> nat \<Rightarrow> string \<Rightarrow> nat \<Rightarrow> nat" where
  "scan_last limit i [] lst = lst"
| "scan_last limit i (c # cs) lst =
     (if int i \<ge> limit then lst
      else scan_last limit (Suc i) cs (if c = CHR '' '' then i else lst))"

text \<open>
  \<open>for len(left) > limit { ... }\<close>. The arguments are \<open>linePrefix\<close>, then the variables the
  loop changes: the output, \<open>left\<close>, \<open>limit\<close>, \<open>firstLine\<close> and \<open>colsUsed\<close>. The slice
  \<open>left[last+1:]\<close> panics when \<open>last+1 > len(left)\<close>; that is the result \<open>None\<close>.
  (\<open>left[:last]\<close> cannot panic before it: \<open>last\<close> is 0 or an offset inside \<open>left\<close>.)
\<close>

function wrap_loop ::
  "string \<Rightarrow> string \<Rightarrow> string \<Rightarrow> int \<Rightarrow> bool \<Rightarrow> int \<Rightarrow> (string \<times> string \<times> bool \<times> int) option"
where
  "wrap_loop lp out left limit firstLine cols =
     (if int (length left) > limit then
        (let lst = scan_last limit 0 left 0;
             limit' = (if firstLine then limit + cols else limit);
             out' = (if firstLine then out else out @ lp)
         in if Suc lst > length left then None
            else wrap_loop lp (out' @ take lst left @ ''\<newline>'')
                   (drop (Suc lst) left) limit' False 0)
      else Some (out, left, firstLine, cols))"
  by pat_completeness auto
termination
  by (relation "measure (\<lambda>(lp, out, left, limit, firstLine, cols). length left)") auto

subsection \<open>One token\<close>

text \<open>
  \<open>for _, attr := range t.Attr\<close>: the first \<open>href\<close> attribute is recorded and ends the
  loop.
\<close>

fun anchor_attrs :: "xml_Attr list \<Rightarrow> render_state \<Rightarrow> render_state" where
  "anchor_attrs [] st = st"
| "anchor_attrs (attr # rest) st =
     (if Local (Attr_Name attr) = ''href''
      then st\<lparr>links := links st @ [Attr_Value attr], linked := True\<rparr>
      else anchor_attrs rest st)"

definition start_element :: "xml_Name \<Rightarrow> xml_Attr list \<Rightarrow> render_state \<Rightarrow> render_state" where
  "start_element name attrs st =
     (if Local name = ''p'' then
        (if firstParagraph st then st\<lparr>firstParagraph := False\<rparr>
         else st\<lparr>w := w st @ ''\<newline>''\<rparr>)\<lparr>linePrefix := [], colsUsed := 0\<rparr>
      else if Local name = ''li'' then
        st\<lparr>w := w st @ ''\<newline> *'', linePrefix := ''   '', colsUsed := 0\<rparr>
      else if Local name = ''a'' then anchor_attrs attrs st
      else st)"

definition end_element :: "xml_Name \<Rightarrow> render_state \<Rightarrow> render_state" where
  "end_element name st =
     (if Local name = ''p'' then st\<lparr>w := w st @ ''\<newline>''\<rparr>
      else if Local name = ''ul'' then st\<lparr>w := w st @ ''\<newline>''\<rparr>
      else if Local name = ''ol'' then st\<lparr>w := w st @ ''\<newline>''\<rparr>
      else st)"

text \<open>The footnote marker \<open>fmt.Sprintf("[%d]", len(links)-1)\<close>.\<close>

definition footnote :: "string list \<Rightarrow> string" where
  "footnote ls = ''['' @ showInt (int (length ls) - 1) @ '']''"

definition char_data :: "string \<Rightarrow> render_state \<Rightarrow> render_state option" where
  "char_data t st =
     (let left = (if linked st then t @ footnote (links st) else t);
          limit = 80 - int (length (linePrefix st)) - colsUsed st
      in case wrap_loop (linePrefix st) (w st) left limit True (colsUsed st) of
           None \<Rightarrow> None
         | Some (out, left', firstLine, cols) \<Rightarrow>
             Some (st\<lparr>w := (if firstLine then out else out @ linePrefix st) @ left',
                      colsUsed := cols + int (length left'),
                      linked := False\<rparr>))"

fun token_step :: "Token \<Rightarrow> render_state \<Rightarrow> render_state option" where
  "token_step (StartElement name attrs) st = Some (start_element name attrs st)"
| "token_step (EndElement name) st = Some (end_element name st)"
| "token_step (CharData t) st = char_data t st"
| "token_step (Comment c) st = Some st"
| "token_step (ProcInst target inst) st = Some st"
| "token_step (Directive d) st = Some st"

subsection \<open>The token loop and the link section\<close>

text \<open>
  \<open>for { token, err := decoder.Token(); if err == io.EOF || token == nil { break } ... }\<close>
  over the decoder's results. When the list is used up the decoder reports \<open>io.EOF\<close>.
\<close>

fun TextDesc_loop :: "Token_result list \<Rightarrow> render_state \<Rightarrow> render_state option" where
  "TextDesc_loop [] st = Some st"
| "TextDesc_loop ((token, err) # rest) st =
     (if err = Some EOF \<or> token = None then Some st
      else case token of
             None \<Rightarrow> Some st
           | Some t \<Rightarrow> (case token_step t st of
                          None \<Rightarrow> None
                        | Some st' \<Rightarrow> TextDesc_loop rest st'))"

text \<open>\<open>for i, link := range links { fmt.Fprintf(w, "[%d] %s\n", i, link) }\<close>\<close>

fun print_links :: "nat \<Rightarrow> string list \<Rightarrow> string \<Rightarrow> string" where
  "print_links i [] out = out"
| "print_links i (link # rest) out =
     print_links (Suc i) rest (out @ ''['' @ showInt (int i) @ ''] '' @ link @ ''\<newline>'')"

definition TextDesc_end :: "render_state \<Rightarrow> string" where
  "TextDesc_end st =
     (if length (links st) > 0 then print_links 0 (links st) (w st @ ''\<newline>'') else w st)"

text \<open>
  \<open>TextDesc\<close>: the first argument is the decoder, as the function from the description to
  the results of its \<open>Token\<close> calls. The result is what was written to the writer, or
  \<open>None\<close> for a panic.
\<close>

definition TextDesc :: "(string \<Rightarrow> Token_result list) \<Rightarrow> App \<Rightarrow> string option" where
  "TextDesc decoder_Token app =
     (case TextDesc_loop (decoder_Token (Desc app)) init_state of
        None \<Rightarrow> None
      | Some st \<Rightarrow> Some (TextDesc_end st))"

text \<open>Tokens without a name space or error, for writing token sequences down.\<close>

definition tok :: "Token \<Rightarrow> Token_result" where
  "tok t = (Some t, None)"

definition Start :: "string \<Rightarrow> Token" where
  "Start n = StartElement \<lparr>Space = [], Local = n\<rparr> []"

definition End :: "string \<Rightarrow> Token" where
  "End n = EndElement \<lparr>Space = [], Local = n\<rparr>"

definition StartA :: "string \<Rightarrow> Token" where
  "StartA href = StartElement \<lparr>Space = [], Local = ''a''\<rparr>
     [\<lparr>Attr_Name = \<lparr>Space = [], Local = ''href''\<rparr>, Attr_Value = href\<rparr>]"

section \<open>CommaList\<close>

text \<open>
  \<open>strings.Split\<close> and \<open>strings.Join\<close> are library code; these are the two for a
  separator of one byte, which is how \<open>CommaList\<close> calls them. \<open>Split\<close> cuts at every
  separator: it looks for the next one (\<open>strings.Index\<close>), keeps what is before it and
  goes on after it; what is left when there is none is the last element.
\<close>

function strings_Split :: "string \<Rightarrow> char \<Rightarrow> string list" where
  "strings_Split s sep =
     (case dropWhile (\<lambda>c. c \<noteq> sep) s of
        [] \<Rightarrow> [s]
      | c # rest \<Rightarrow> takeWhile (\<lambda>c. c \<noteq> sep) s # strings_Split rest sep)"
  by pat_completeness auto
termination
proof (relation "measure (\<lambda>(s, sep). length s)")
  show "wf (measure (\<lambda>(s, sep). length s))"
    by simp
next
  fix s :: string and sep c :: char and rest :: string
  assume "dropWhile (\<lambda>c. c \<noteq> sep) s = c # rest"
  then have "length (dropWhile (\<lambda>c. c \<noteq> sep) s) = Suc (length rest)"
    by simp
  moreover have "length (dropWhile (\<lambda>c. c \<noteq> sep) s) \<le> length s"
    by (rule length_dropWhile_le)
  ultimately show "((rest, sep), (s, sep)) \<in> measure (\<lambda>(s, sep). length s)"
    by simp
qed

fun strings_Join :: "string list \<Rightarrow> char \<Rightarrow> string" where
  "strings_Join [] sep = []"
| "strings_Join [e] sep = e"
| "strings_Join (e # e' # elems) sep = e @ sep # strings_Join (e' # elems) sep"

text \<open>\<open>FromString\<close> overwrites \<open>*cl\<close>; the model returns the new value.\<close>

definition CommaList_FromString :: "string \<Rightarrow> CommaList" where
  "CommaList_FromString s = strings_Split s (CHR '','')"

definition CommaList_String :: "CommaList \<Rightarrow> string" where
  "CommaList_String cl = strings_Join cl (CHR '','')"

section \<open>DateVal\<close>

subsection \<open>time.Parse and Time.Format for the layout 2006-01-02\<close>

text \<open>
  \<open>DateVal.FromString\<close> is \<open>time.Parse("2006-01-02", s)\<close> and \<open>DateVal.String\<close> is
  \<open>Format("2006-01-02")\<close>. Package \<open>time\<close> belongs to Go's standard library, not to this
  repository; what follows is the path it takes for this one layout: a four-digit year
  (\<open>stdLongYear\<close>), the literal \<open>-\<close>, a two-digit month (\<open>stdZeroMonth\<close>), the literal
  \<open>-\<close>, a two-digit day (\<open>stdZeroDay\<close>), nothing after it, and then the check of the
  day against the length of the month.
\<close>

definition isDigit :: "string \<Rightarrow> nat \<Rightarrow> bool" where
  "isDigit s i = (if length s \<le> i then False else CHR ''0'' \<le> s ! i \<and> s ! i \<le> CHR ''9'')"

definition digit_val :: "char \<Rightarrow> nat" where
  "digit_val c = of_char c - 48"

text \<open>
  \<open>getnum(s, fixed)\<close> with \<open>fixed = true\<close>: exactly two digits. The result is the number
  and the rest of the string, \<open>None\<close> for \<open>errBad\<close>.
\<close>

definition getnum_fixed :: "string \<Rightarrow> (nat \<times> string) option" where
  "getnum_fixed s =
     (if \<not> isDigit s 0 then None
      else if \<not> isDigit s 1 then None
      else Some (digit_val (s ! 0) * 10 + digit_val (s ! 1), drop 2 s))"

text \<open>
  \<open>leadingInt\<close> reads the digits at the start of a string; \<open>atoi\<close> accepts when nothing
  is left after them. (\<open>atoi\<close> would also accept a sign; the caller has checked that the
  first byte is a digit. Four digits cannot overflow.)
\<close>

fun leadingInt :: "nat \<Rightarrow> string \<Rightarrow> nat \<times> string" where
  "leadingInt x [] = (x, [])"
| "leadingInt x (c # cs) =
     (if c < CHR ''0'' \<or> c > CHR ''9'' then (x, c # cs)
      else leadingInt (x * 10 + digit_val c) cs)"

definition atoi :: "string \<Rightarrow> nat option" where
  "atoi s = (case leadingInt 0 s of (q, rem) \<Rightarrow> if length rem > 0 then None else Some q)"

text \<open>\<open>skip(value, prefix)\<close> for a prefix of one byte that is not a space.\<close>

definition skip :: "string \<Rightarrow> char \<Rightarrow> string option" where
  "skip s p = (case s of [] \<Rightarrow> None | c # rest \<Rightarrow> if c \<noteq> p then None else Some rest)"

definition isLeap :: "nat \<Rightarrow> bool" where
  "isLeap year = (year mod 4 = 0 \<and> (year mod 100 \<noteq> 0 \<or> year mod 400 = 0))"

definition daysIn :: "nat \<Rightarrow> nat \<Rightarrow> nat" where
  "daysIn m year =
     (if m = 2 \<and> isLeap year then 29
      else if m = 2 then 28
      else if m = 4 \<or> m = 6 \<or> m = 9 \<or> m = 11 then 30
      else 31)"

definition time_Parse :: "string \<Rightarrow> error + DateVal" where
  "time_Parse s =
     (if length s < 4 \<or> \<not> isDigit s 0 then Inl (ParseError ''year'')
      else case atoi (take 4 s) of
        None \<Rightarrow> Inl (ParseError ''year'')
      | Some year \<Rightarrow>
     (case skip (drop 4 s) (CHR ''-'') of
        None \<Rightarrow> Inl (ParseError ''-'')
      | Some s1 \<Rightarrow>
     (case getnum_fixed s1 of
        None \<Rightarrow> Inl (ParseError ''month'')
      | Some (month, s2) \<Rightarrow>
          if month \<le> 0 \<or> 12 < month then Inl (ParseError ''month out of range'')
          else
     (case skip s2 (CHR ''-'') of
        None \<Rightarrow> Inl (ParseError ''-'')
      | Some s3 \<Rightarrow>
     (case getnum_fixed s3 of
        None \<Rightarrow> Inl (ParseError ''day'')
      | Some (day, s4) \<Rightarrow>
          if length s4 \<noteq> 0 then Inl (ParseError ''extra text'')
          else if day < 1 \<or> day > daysIn month year
            then Inl (ParseError ''day out of range'')
          else Inr \<lparr>Year = year, Month = month, Day = day\<rparr>)))))"

text \<open>\<open>appendInt(b, x, width)\<close>: the decimal digits of \<open>x\<close>, zero-padded to \<open>width\<close>.\<close>

definition appendInt :: "nat \<Rightarrow> nat \<Rightarrow> string" where
  "appendInt x width = replicate (width - length (showNat x)) (CHR ''0'') @ showNat x"

definition time_Format :: "DateVal \<Rightarrow> string" where
  "time_Format d = appendInt (Year d) 4 @ ''-'' @ appendInt (Month d) 2 @ ''-'' @ appendInt (Day d) 2"

subsection \<open>The methods of DateVal\<close>

text \<open>
  \<open>FromString\<close> writes \<open>*dv\<close> only when the parse succeeds: \<open>Inr\<close> is the new value,
  \<open>Inl\<close> the error returned with \<open>*dv\<close> untouched.
\<close>

definition DateVal_FromString :: "string \<Rightarrow> error + DateVal" where
  "DateVal_FromString s = (case time_Parse s of Inl err \<Rightarrow> Inl err | Inr t \<Rightarrow> Inr t)"

definition DateVal_String :: "DateVal \<Rightarrow> string" where
  "DateVal_String dv = time_Format dv"

subsection \<open>The spec's words for a date string\<close>

text \<open>
  A civil date that the pattern \<open>YYYY-MM-DD\<close> can carry: a year of at most four digits, a
  month from 1 to 12, a day from 1 to the length of that month.
\<close>

definition valid_date :: "DateVal \<Rightarrow> bool" where
  "valid_date d =
     (Year d \<le> 9999 \<and> 1 \<le> Month d \<and> Month d \<le> 12 \<and> 1 \<le> Day d \<and> Day d \<le> daysIn (Month d) (Year d))"

definition is_digit_char :: "char \<Rightarrow> bool" where
  "is_digit_char c = (c \<in> set ''0123456789'')"

text \<open>
  The exact form \<open>YYYY-MM-DD\<close>: ten bytes, digits everywhere but the two hyphens.
\<close>

definition YYYY_MM_DD :: "string \<Rightarrow> bool" where
  "YYYY_MM_DD s =
     (case s of
        [y1, y2, y3, y4, h1, m1, m2, h2, d1, d2] \<Rightarrow>
          h1 = CHR ''-'' \<and> h2 = CHR ''-'' \<and> list_all is_digit_char [y1, y2, y3, y4, m1, m2, d1, d2]
      | _ \<Rightarrow> False)"

text \<open>The date such a string denotes, read positionally.\<close>

definition denoted :: "string \<Rightarrow> DateVal" where
  "denoted s =
     \<lparr>Year = digit_val (s ! 0) * 1000 + digit_val (s ! 1) * 100 + digit_val (s ! 2) * 10
              + digit_val (s ! 3),
      Month = digit_val (s ! 5) * 10 + digit_val (s ! 6),
      Day = digit_val (s ! 8) * 10 + digit_val (s ! 9)\<rparr>"

text \<open>The date that eight digits denote, read positionally.\<close>

definition date_of :: "char \<Rightarrow> char \<Rightarrow> char \<Rightarrow> char \<Rightarrow> char \<Rightarrow> char \<Rightarrow> char \<Rightarrow> char \<Rightarrow> DateVal" where
  "date_of y1 y2 y3 y4 m1 m2 d1 d2 =
     \<lparr>Year = digit_val y1 * 1000 + digit_val y2 * 100 + digit_val y3 * 10 + digit_val y4,
      Month = digit_val m1 * 10 + digit_val m2,
      Day = digit_val d1 * 10 + digit_val d2\<rparr>"

section \<open>HexVal\<close>

text \<open>
  \<open>hex.DecodeString\<close> is library code: two hexadecimal digits, of either case, make a
  byte; the first byte that is not a digit is reported, and an odd length after that.
\<close>

definition fromHexChar :: "char \<Rightarrow> nat option" where
  "fromHexChar c =
     (if CHR ''0'' \<le> c \<and> c \<le> CHR ''9'' then Some (of_char c - of_char (CHR ''0''))
      else if CHR ''a'' \<le> c \<and> c \<le> CHR ''f'' then Some (of_char c - of_char (CHR ''a'') + 10)
      else if CHR ''A'' \<le> c \<and> c \<le> CHR ''F'' then Some (of_char c - of_char (CHR ''A'') + 10)
      else None)"

fun hex_DecodeString :: "string \<Rightarrow> error + HexVal" where
  "hex_DecodeString [] = Inr []"
| "hex_DecodeString [p] =
     (case fromHexChar p of None \<Rightarrow> Inl (InvalidByteError p) | Some a \<Rightarrow> Inl ErrLength)"
| "hex_DecodeString (p # q # rest) =
     (case fromHexChar p of
        None \<Rightarrow> Inl (InvalidByteError p)
      | Some a \<Rightarrow>
     (case fromHexChar q of
        None \<Rightarrow> Inl (InvalidByteError q)
      | Some b \<Rightarrow>
     (case hex_DecodeString rest of
        Inl err \<Rightarrow> Inl err
      | Inr bytes \<Rightarrow> Inr (of_nat (a * 16 + b) # bytes))))"

text \<open>\<open>FromString\<close> writes \<open>*hv\<close> only when the string decodes.\<close>

definition HexVal_FromString :: "string \<Rightarrow> error + HexVal" where
  "HexVal_FromString s = (case hex_DecodeString s of Inl err \<Rightarrow> Inl err | Inr b \<Rightarrow> Inr b)"

section \<open>The XML methods of the scalar types\<close>

text \<open>
  \<open>UnmarshalXML\<close> first reads the text of the element with \<open>d.DecodeElement\<close>, which is
  library code; its outcome, an error or the text, is the first argument here.
  \<open>UnmarshalText\<close> gets the text itself. The result is the error returned, or the new
  value of the receiver.
\<close>

definition CommaList_UnmarshalXML :: "error + string \<Rightarrow> error + CommaList" where
  "CommaList_UnmarshalXML decoded =
     (case decoded of Inl err \<Rightarrow> Inl err | Inr content \<Rightarrow> Inr (CommaList_FromString content))"

definition CommaList_UnmarshalText :: "string \<Rightarrow> error + CommaList" where
  "CommaList_UnmarshalText s = Inr (CommaList_FromString s)"

definition HexVal_UnmarshalXML :: "error + string \<Rightarrow> error + HexVal" where
  "HexVal_UnmarshalXML decoded =
     (case decoded of Inl err \<Rightarrow> Inl err | Inr content \<Rightarrow> HexVal_FromString content)"

definition HexVal_UnmarshalText :: "string \<Rightarrow> error + HexVal" where
  "HexVal_UnmarshalText s = HexVal_FromString s"

definition DateVal_UnmarshalXML :: "error + string \<Rightarrow> error + DateVal" where
  "DateVal_UnmarshalXML decoded =
     (case decoded of Inl err \<Rightarrow> Inl err | Inr content \<Rightarrow> DateVal_FromString content)"

definition DateVal_UnmarshalText :: "string \<Rightarrow> error + DateVal" where
  "DateVal_UnmarshalText s = DateVal_FromString s"

section \<open>sort.Sort\<close>

text \<open>
  \<open>sort.Sort\<close> belongs to Go's standard library, not to this repository. What follows is
  its algorithm since Go 1.19, pattern-defeating quicksort, function by function: a slice
  of at most 12 elements is sorted by insertion; a longer one is partitioned around a
  pivot, and its parts are sorted in turn. The slice is a list, \<open>Less\<close> and \<open>Swap\<close> are
  the methods of the \<open>sort.Interface\<close> being sorted, and indices are \<^typ>\<open>nat\<close>.
\<close>

datatype sortedHint = unknownHint | increasingHint | decreasingHint

text \<open>
  \<open>insertionSort(data, a, b)\<close>:
  \<open>for i := a + 1; i < b; i++ { for j := i; j > a && data.Less(j, j-1); j-- { data.Swap(j, j-1) } }\<close>
\<close>

function insertion_inner ::
  "('a list \<Rightarrow> nat \<Rightarrow> nat \<Rightarrow> bool) \<Rightarrow> ('a list \<Rightarrow> nat \<Rightarrow> nat \<Rightarrow> 'a list) \<Rightarrow> nat \<Rightarrow> nat \<Rightarrow> 'a list \<Rightarrow> 'a list"
where
  "insertion_inner Less Swap a j data =
     (if j > a \<and> Less data j (j - 1)
      then insertion_inner Less Swap a (j - 1) (Swap data j (j - 1))
      else data)"
  by pat_completeness auto
termination
  by (relation "measure (\<lambda>(Less, Swap, a, j, data). j)") auto

declare insertion_inner.simps [simp del]

function insertion_loop ::
  "('a list \<Rightarrow> nat \<Rightarrow> nat \<Rightarrow> bool) \<Rightarrow> ('a list \<Rightarrow> nat \<Rightarrow> nat \<Rightarrow> 'a list) \<Rightarrow> nat \<Rightarrow> nat \<Rightarrow> nat \<Rightarrow> 'a list \<Rightarrow> 'a list"
where
  "insertion_loop Less Swap a b i data =
     (if i < b then insertion_loop Less Swap a b (Suc i) (insertion_inner Less Swap a i data)
      else data)"
  by pat_completeness auto
termination
  by (relation "measure (\<lambda>(Less, Swap, a, b, i, data). b - i)") auto

declare insertion_loop.simps [simp del]

definition insertionSort ::
  "('a list \<Rightarrow> nat \<Rightarrow> nat \<Rightarrow> bool) \<Rightarrow> ('a list \<Rightarrow> nat \<Rightarrow> nat \<Rightarrow> 'a list) \<Rightarrow> 'a list \<Rightarrow> nat \<Rightarrow> nat \<Rightarrow> 'a list"
where
  "insertionSort Less Swap data a b = insertion_loop Less Swap a b (a + 1) data"

text \<open>
  \<open>siftDown\<close> and \<open>heapSort\<close>, the fallback when too many partitions were unbalanced. The
  two \<open>for\<close> loops of \<open>heapSort\<close> count \<open>i\<close> down to 0.
\<close>

function siftDown ::
  "('a list \<Rightarrow> nat \<Rightarrow> nat \<Rightarrow> bool) \<Rightarrow> ('a list \<Rightarrow> nat \<Rightarrow> nat \<Rightarrow> 'a list) \<Rightarrow> 'a list \<Rightarrow> nat \<Rightarrow> nat \<Rightarrow> nat \<Rightarrow> 'a list"
where
  "siftDown Less Swap data root hi first =
     (let child = 2 * root + 1 in
      if child \<ge> hi then data
      else
        let child' = (if child + 1 < hi \<and> Less data (first + child) (first + child + 1)
                      then child + 1 else child)
        in if \<not> Less data (first + root) (first + child') then data
           else siftDown Less Swap (Swap data (first + root) (first + child')) child' hi first)"
  by pat_completeness auto
termination
  by (relation "measure (\<lambda>(Less, Swap, data, root, hi, first). hi - root)") auto

declare siftDown.simps [simp del]

definition heapSort ::
  "('a list \<Rightarrow> nat \<Rightarrow> nat \<Rightarrow> bool) \<Rightarrow> ('a list \<Rightarrow> nat \<Rightarrow> nat \<Rightarrow> 'a list) \<Rightarrow> 'a list \<Rightarrow> nat \<Rightarrow> nat \<Rightarrow> 'a list"
where
  "heapSort Less Swap data a b =
     (let first = a; lo = 0; hi = b - a;
          heap = fold (\<lambda>i d. siftDown Less Swap d i hi first) (rev [0..<Suc ((hi - 1) div 2)]) data
      in fold (\<lambda>i d. siftDown Less Swap (Swap d first (first + i)) lo i first) (rev [0..<hi]) heap)"

text \<open>
  \<open>choosePivot\<close>: the middle element for fewer than 8 elements, the median of three for
  fewer than 50, the median of the medians of three adjacent triples otherwise. \<open>swaps\<close>
  counts the pairs found out of order, which gives the hint.
\<close>

definition order2 ::
  "('a list \<Rightarrow> nat \<Rightarrow> nat \<Rightarrow> bool) \<Rightarrow> 'a list \<Rightarrow> nat \<Rightarrow> nat \<Rightarrow> nat \<Rightarrow> nat \<times> nat \<times> nat"
where
  "order2 Less data a b swaps = (if Less data b a then (b, a, swaps + 1) else (a, b, swaps))"

definition median ::
  "('a list \<Rightarrow> nat \<Rightarrow> nat \<Rightarrow> bool) \<Rightarrow> 'a list \<Rightarrow> nat \<Rightarrow> nat \<Rightarrow> nat \<Rightarrow> nat \<Rightarrow> nat \<times> nat"
where
  "median Less data a b c swaps =
     (case order2 Less data a b swaps of (a1, b1, s1) \<Rightarrow>
      case order2 Less data b1 c s1 of (b2, c2, s2) \<Rightarrow>
      case order2 Less data a1 b2 s2 of (a3, b3, s3) \<Rightarrow> (b3, s3))"

definition medianAdjacent ::
  "('a list \<Rightarrow> nat \<Rightarrow> nat \<Rightarrow> bool) \<Rightarrow> 'a list \<Rightarrow> nat \<Rightarrow> nat \<Rightarrow> nat \<times> nat"
where
  "medianAdjacent Less data a swaps = median Less data (a - 1) a (a + 1) swaps"

definition choosePivot ::
  "('a list \<Rightarrow> nat \<Rightarrow> nat \<Rightarrow> bool) \<Rightarrow> 'a list \<Rightarrow> nat \<Rightarrow> nat \<Rightarrow> nat \<times> sortedHint"
where
  "choosePivot Less data a b =
     (let l = b - a;
          i = a + l div 4 * 1;
          j = a + l div 4 * 2;
          k = a + l div 4 * 3;
          (j', swaps) =
            (if l \<ge> 8 then
               (if l \<ge> 50 then
                  (case medianAdjacent Less data i 0 of (i1, s1) \<Rightarrow>
                   case medianAdjacent Less data j s1 of (j1, s2) \<Rightarrow>
                   case medianAdjacent Less data k s2 of (k1, s3) \<Rightarrow>
                     median Less data i1 j1 k1 s3)
                else median Less data i j k 0)
             else (j, 0))
      in if swaps = 0 then (j', increasingHint)
         else if swaps = 12 then (j', decreasingHint)
         else (j', unknownHint))"

text \<open>
  \<open>reverseRange(data, a, b)\<close>.
\<close>

function reverseRange_loop ::
  "('a list \<Rightarrow> nat \<Rightarrow> nat \<Rightarrow> 'a list) \<Rightarrow> nat \<Rightarrow> nat \<Rightarrow> 'a list \<Rightarrow> 'a list"
where
  "reverseRange_loop Swap i j data =
     (if i < j then reverseRange_loop Swap (i + 1) (j - 1) (Swap data i j) else data)"
  by pat_completeness auto
termination
  by (relation "measure (\<lambda>(Swap, i, j, data). j - i)") auto

declare reverseRange_loop.simps [simp del]

definition reverseRange ::
  "('a list \<Rightarrow> nat \<Rightarrow> nat \<Rightarrow> 'a list) \<Rightarrow> 'a list \<Rightarrow> nat \<Rightarrow> nat \<Rightarrow> 'a list"
where
  "reverseRange Swap data a b = reverseRange_loop Swap a (b - 1) data"

text \<open>
  \<open>partition(data, a, b, pivot)\<close> puts the pivot first and then moves \<open>i\<close> up over the
  elements less than the pivot and \<open>j\<close> down over the others, swapping the pair at which
  both stop:
  \<open>for i <= j && data.Less(i, a) { i++ }\<close> is \<open>scan_up\<close> and
  \<open>for i <= j && !data.Less(j, a) { j-- }\<close> is \<open>scan_down\<close>. (\<open>i\<close> starts above \<open>a\<close>, so
  \<open>j\<close> is positive whenever \<open>i <= j\<close>.) The result is the slice, the final place of the
  pivot, and whether the slice was partitioned as it was.
\<close>

function scan_up :: "('a list \<Rightarrow> nat \<Rightarrow> nat \<Rightarrow> bool) \<Rightarrow> 'a list \<Rightarrow> nat \<Rightarrow> nat \<Rightarrow> nat \<Rightarrow> nat" where
  "scan_up Less data a i j =
     (if i \<le> j \<and> Less data i a then scan_up Less data a (i + 1) j else i)"
  by pat_completeness auto
termination
  by (relation "measure (\<lambda>(Less, data, a, i, j). Suc j - i)") auto

declare scan_up.simps [simp del]

function scan_down :: "('a list \<Rightarrow> nat \<Rightarrow> nat \<Rightarrow> bool) \<Rightarrow> 'a list \<Rightarrow> nat \<Rightarrow> nat \<Rightarrow> nat \<Rightarrow> nat" where
  "scan_down Less data a i j =
     (if i \<le> j \<and> \<not> Less data j a \<and> 0 < j then scan_down Less data a i (j - 1) else j)"
  by pat_completeness auto
termination
  by (relation "measure (\<lambda>(Less, data, a, i, j). j)") auto

declare scan_down.simps [simp del]

function partition_loop ::
  "('a list \<Rightarrow> nat \<Rightarrow> nat \<Rightarrow> bool) \<Rightarrow> ('a list \<Rightarrow> nat \<Rightarrow> nat \<Rightarrow> 'a list) \<Rightarrow> nat \<Rightarrow> nat \<Rightarrow> nat \<Rightarrow> 'a list \<Rightarrow> 'a list \<times> nat"
where
  "partition_loop Less Swap a i j data =
     (let i' = scan_up Less data a i j;
          j' = scan_down Less data a i' j
      in if i' > j' then (data, j')
         else partition_loop Less Swap a (i' + 1) (j' - 1) (Swap data i' j'))"
  by pat_completeness auto
termination
proof (relation "measure (\<lambda>(Less, Swap, a, i, j, data). Suc j - i)")
  show "wf (measure (\<lambda>(Less, Swap, a, i, j, data). Suc j - i))"
    by simp
next
  fix Less :: "'a list \<Rightarrow> nat \<Rightarrow> nat \<Rightarrow> bool" and Swap :: "'a list \<Rightarrow> nat \<Rightarrow> nat \<Rightarrow> 'a list"
    and a i j :: nat and data :: "'a list" and i' j' :: nat
  assume i': "i' = scan_up Less data a i j" and j': "j' = scan_down Less data a i' j"
    and le: "\<not> j' < i'"
  have up: "i0 \<le> scan_up Less data a i0 j0" for i0 j0
    by (induction Less data a i0 j0 rule: scan_up.induct) (subst scan_up.simps, auto)
  have down: "scan_down Less data a i0 j0 \<le> j0" for i0 j0
    by (induction Less data a i0 j0 rule: scan_down.induct) (subst scan_down.simps, auto)
  from up [of i j] have "i \<le> i'" by (simp add: i')
  moreover from down [of i' j] have "j' \<le> j" by (simp add: j')
  ultimately show "((Less, Swap, a, i' + 1, j' - 1, Swap data i' j'), (Less, Swap, a, i, j, data))
      \<in> measure (\<lambda>(Less, Swap, a, i, j, data). Suc j - i)"
    using le by simp
qed

declare partition_loop.simps [simp del]

definition partition_slice ::
  "('a list \<Rightarrow> nat \<Rightarrow> nat \<Rightarrow> bool) \<Rightarrow> ('a list \<Rightarrow> nat \<Rightarrow> nat \<Rightarrow> 'a list) \<Rightarrow> 'a list \<Rightarrow> nat \<Rightarrow> nat \<Rightarrow> nat
     \<Rightarrow> 'a list \<times> nat \<times> bool"
where
  "partition_slice Less Swap data a b pivot =
     (let data1 = Swap data a pivot;
          i = scan_up Less data1 a (a + 1) (b - 1);
          j = scan_down Less data1 a i (b - 1)
      in if i > j then (Swap data1 j a, j, True)
         else
           (case partition_loop Less Swap a (i + 1) (j - 1) (Swap data1 i j) of
              (data2, j') \<Rightarrow> (Swap data2 j' a, j', False)))"

text \<open>
  \<open>partitionEqual\<close>: the same walk with \<open>!data.Less(a, i)\<close> and \<open>data.Less(a, j)\<close>, for a
  slice with many elements equal to the pivot.
\<close>

function scanEqual_up :: "('a list \<Rightarrow> nat \<Rightarrow> nat \<Rightarrow> bool) \<Rightarrow> 'a list \<Rightarrow> nat \<Rightarrow> nat \<Rightarrow> nat \<Rightarrow> nat" where
  "scanEqual_up Less data a i j =
     (if i \<le> j \<and> \<not> Less data a i then scanEqual_up Less data a (i + 1) j else i)"
  by pat_completeness auto
termination
  by (relation "measure (\<lambda>(Less, data, a, i, j). Suc j - i)") auto

declare scanEqual_up.simps [simp del]

function scanEqual_down :: "('a list \<Rightarrow> nat \<Rightarrow> nat \<Rightarrow> bool) \<Rightarrow> 'a list \<Rightarrow> nat \<Rightarrow> nat \<Rightarrow> nat \<Rightarrow> nat" where
  "scanEqual_down Less data a i j =
     (if i \<le> j \<and> Less data a j \<and> 0 < j then scanEqual_down Less data a i (j - 1) else j)"
  by pat_completeness auto
termination
  by (relation "measure (\<lambda>(Less, data, a, i, j). j)") auto

declare scanEqual_down.simps [simp del]

function partitionEqual_loop ::
  "('a list \<Rightarrow> nat \<Rightarrow> nat \<Rightarrow> bool) \<Rightarrow> ('a list \<Rightarrow> nat \<Rightarrow> nat \<Rightarrow> 'a list) \<Rightarrow> nat \<Rightarrow> nat \<Rightarrow> nat \<Rightarrow> 'a list \<Rightarrow> 'a list \<times> nat"
where
  "partitionEqual_loop Less Swap a i j data =
     (let i' = scanEqual_up Less data a i j;
          j' = scanEqual_down Less data a i' j
      in if i' > j' then (data, i')
         else partitionEqual_loop Less Swap a (i' + 1) (j' - 1) (Swap data i' j'))"
  by pat_completeness auto
termination
proof (relation "measure (\<lambda>(Less, Swap, a, i, j, data). Suc j - i)")
  show "wf (measure (\<lambda>(Less, Swap, a, i, j, data). Suc j - i))"
    by simp
next
  fix Less :: "'a list \<Rightarrow> nat \<Rightarrow> nat \<Rightarrow> bool" and Swap :: "'a list \<Rightarrow> nat \<Rightarrow> nat \<Rightarrow> 'a list"
    and a i j :: nat and data :: "'a list" and i' j' :: nat
  assume i': "i' = scanEqual_up Less data a i j" and j': "j' = scanEqual_down Less data a i' j"
    and le: "\<not> j' < i'"
  have up: "i0 \<le> scanEqual_up Less data a i0 j0" for i0 j0
    by (induction Less data a i0 j0 rule: scanEqual_up.induct) (subst scanEqual_up.simps, auto)
  have down: "scanEqual_down Less data a i0 j0 \<le> j0" for i0 j0
    by (induction Less data a i0 j0 rule: scanEqual_down.induct) (subst scanEqual_down.simps, auto)
  from up [of i j] have "i \<le> i'" by (simp add: i')
  moreover from down [of i' j] have "j' \<le> j" by (simp add: j')
  ultimately show "((Less, Swap, a, i' + 1, j' - 1, Swap data i' j'), (Less, Swap, a, i, j, data))
      \<in> measure (\<lambda>(Less, Swap, a, i, j, data). Suc j - i)"
    using le by simp
qed

declare partitionEqual_loop.simps [simp del]

definition partitionEqual ::
  "('a list \<Rightarrow> nat \<Rightarrow> nat \<Rightarrow> bool) \<Rightarrow> ('a list \<Rightarrow> nat \<Rightarrow> nat \<Rightarrow> 'a list) \<Rightarrow> 'a list \<Rightarrow> nat \<Rightarrow> nat \<Rightarrow> nat \<Rightarrow> 'a list \<times> nat"
where
  "partitionEqual Less Swap data a b pivot =
     partitionEqual_loop Less Swap a (a + 1) (b - 1) (Swap data a pivot)"

text \<open>
  \<open>partialInsertionSort\<close>: \<open>advance\<close> is \<open>for i < b && !data.Less(i, i-1) { i++ }\<close>. A
  slice found in order gives \<open>true\<close>; one of fewer than 50 elements is left as it is; a
  longer one has up to five out-of-order pairs shifted into place.
\<close>

function advance :: "('a list \<Rightarrow> nat \<Rightarrow> nat \<Rightarrow> bool) \<Rightarrow> 'a list \<Rightarrow> nat \<Rightarrow> nat \<Rightarrow> nat" where
  "advance Less data b i = (if i < b \<and> \<not> Less data i (i - 1) then advance Less data b (i + 1) else i)"
  by pat_completeness auto
termination
  by (relation "measure (\<lambda>(Less, data, b, i). b - i)") auto

declare advance.simps [simp del]

function shift_left ::
  "('a list \<Rightarrow> nat \<Rightarrow> nat \<Rightarrow> bool) \<Rightarrow> ('a list \<Rightarrow> nat \<Rightarrow> nat \<Rightarrow> 'a list) \<Rightarrow> nat \<Rightarrow> 'a list \<Rightarrow> 'a list"
where
  "shift_left Less Swap j data =
     (if j \<ge> 1 then
        (if \<not> Less data j (j - 1) then data else shift_left Less Swap (j - 1) (Swap data j (j - 1)))
      else data)"
  by pat_completeness auto
termination
  by (relation "measure (\<lambda>(Less, Swap, j, data). j)") auto

declare shift_left.simps [simp del]

function shift_right ::
  "('a list \<Rightarrow> nat \<Rightarrow> nat \<Rightarrow> bool) \<Rightarrow> ('a list \<Rightarrow> nat \<Rightarrow> nat \<Rightarrow> 'a list) \<Rightarrow> nat \<Rightarrow> nat \<Rightarrow> 'a list \<Rightarrow> 'a list"
where
  "shift_right Less Swap b j data =
     (if j < b then
        (if \<not> Less data j (j - 1) then data else shift_right Less Swap b (j + 1) (Swap data j (j - 1)))
      else data)"
  by pat_completeness auto
termination
  by (relation "measure (\<lambda>(Less, Swap, b, j, data). b - j)") auto

declare shift_right.simps [simp del]

fun partialInsertionSort_loop ::
  "('a list \<Rightarrow> nat \<Rightarrow> nat \<Rightarrow> bool) \<Rightarrow> ('a list \<Rightarrow> nat \<Rightarrow> nat \<Rightarrow> 'a list) \<Rightarrow> nat \<Rightarrow> nat \<Rightarrow> nat \<Rightarrow> nat \<Rightarrow> 'a list
     \<Rightarrow> 'a list \<times> bool"
where
  "partialInsertionSort_loop Less Swap a b 0 i data = (data, False)"
| "partialInsertionSort_loop Less Swap a b (Suc steps) i data =
     (let i' = advance Less data b i in
      if i' = b then (data, True)
      else if b - a < 50 then (data, False)
      else
        let data1 = Swap data i' (i' - 1);
            data2 = (if i' - a \<ge> 2 then shift_left Less Swap (i' - 1) data1 else data1);
            data3 = (if b - i' \<ge> 2 then shift_right Less Swap b (i' + 1) data2 else data2)
        in partialInsertionSort_loop Less Swap a b steps i' data3)"

definition partialInsertionSort ::
  "('a list \<Rightarrow> nat \<Rightarrow> nat \<Rightarrow> bool) \<Rightarrow> ('a list \<Rightarrow> nat \<Rightarrow> nat \<Rightarrow> 'a list) \<Rightarrow> 'a list \<Rightarrow> nat \<Rightarrow> nat \<Rightarrow> 'a list \<times> bool"
where
  "partialInsertionSort Less Swap data a b = partialInsertionSort_loop Less Swap a b 5 (a + 1) data"

text \<open>
  \<open>breakPatterns\<close> swaps three elements near the middle with pseudo-random ones.
  \<open>bits_Len\<close> is \<open>bits.Len\<close>, and \<open>xorshift_Next\<close> the generator's step, passed to the sort
  as \<open>random_Next\<close>. The generator is drawn from only after an unbalanced partition of a
  slice that leaves more than 12 elements to sort.
\<close>

fun bits_Len :: "nat \<Rightarrow> nat" where
  "bits_Len n = (if n = 0 then 0 else Suc (bits_Len (n div 2)))"

declare bits_Len.simps [simp del]

definition xorshift_Next :: "64 word \<Rightarrow> 64 word" where
  "xorshift_Next r =
     (let r1 = xor r (push_bit 13 r);
          r2 = xor r1 (drop_bit 7 r1)
      in xor r2 (push_bit 17 r2))"

definition nextPowerOfTwo :: "nat \<Rightarrow> 64 word" where
  "nextPowerOfTwo len = push_bit (bits_Len len) 1"

fun breakPatterns_loop ::
  "(64 word \<Rightarrow> 64 word) \<Rightarrow> ('a list \<Rightarrow> nat \<Rightarrow> nat \<Rightarrow> 'a list) \<Rightarrow> nat \<Rightarrow> nat \<Rightarrow> 64 word \<Rightarrow> nat \<Rightarrow> nat list
     \<Rightarrow> 64 word \<Rightarrow> 'a list \<Rightarrow> 'a list"
where
  "breakPatterns_loop random_Next Swap a len modulus idx [] random data = data"
| "breakPatterns_loop random_Next Swap a len modulus idx (i # rest) random data =
     (let random' = random_Next random;
          other = unat (and random' (modulus - 1));
          other' = (if other \<ge> len then other - len else other)
      in breakPatterns_loop random_Next Swap a len modulus idx rest random'
           (Swap data (idx - 1 + i) (a + other')))"

definition breakPatterns ::
  "(64 word \<Rightarrow> 64 word) \<Rightarrow> ('a list \<Rightarrow> nat \<Rightarrow> nat \<Rightarrow> 'a list) \<Rightarrow> 'a list \<Rightarrow> nat \<Rightarrow> nat \<Rightarrow> 'a list"
where
  "breakPatterns random_Next Swap data a b =
     (let len = b - a in
      if len \<ge> 8 then
        breakPatterns_loop random_Next Swap a len (nextPowerOfTwo len) (a + (len div 4) * 2 - 1)
          [0, 1, 2] (of_nat len) data
      else data)"

text \<open>
  \<open>pdqsort(data, a, b, limit)\<close>. The last two arguments are its local variables
  \<open>wasBalanced\<close> and \<open>wasPartitioned\<close>, both \<open>true\<close> at every call. The loop is the
  recursion on the larger part, after the call on the smaller one. \<open>partition\<close> returns
  \<open>a <= mid < b\<close> and \<open>partitionEqual\<close> returns \<open>a < mid\<close> (lemmas \<open>partition_slice_mid\<close>
  and \<open>partitionEqual_mid\<close> below); the branches for anything else are never taken.
\<close>

function pdqsort ::
  "(64 word \<Rightarrow> 64 word) \<Rightarrow> ('a list \<Rightarrow> nat \<Rightarrow> nat \<Rightarrow> bool) \<Rightarrow> ('a list \<Rightarrow> nat \<Rightarrow> nat \<Rightarrow> 'a list)
     \<Rightarrow> 'a list \<Rightarrow> nat \<Rightarrow> nat \<Rightarrow> nat \<Rightarrow> bool \<Rightarrow> bool \<Rightarrow> 'a list"
where
  "pdqsort random_Next Less Swap data a b limit wasBalanced wasPartitioned =
     (if b - a \<le> 12 then insertionSort Less Swap data a b
      else if limit = 0 then heapSort Less Swap data a b
      else
        (let data1 = (if \<not> wasBalanced then breakPatterns random_Next Swap data a b else data);
             limit1 = (if \<not> wasBalanced then limit - 1 else limit);
             (pivot0, hint0) = choosePivot Less data1 a b;
             data2 = (if hint0 = decreasingHint then reverseRange Swap data1 a b else data1);
             pivot = (if hint0 = decreasingHint then (b - 1) - (pivot0 - a) else pivot0);
             hint = (if hint0 = decreasingHint then increasingHint else hint0);
             (data3, done) =
               (if wasBalanced \<and> wasPartitioned \<and> hint = increasingHint
                then partialInsertionSort Less Swap data2 a b else (data2, False))
         in if done then data3
            else if a > 0 \<and> \<not> Less data3 (a - 1) pivot then
              (case partitionEqual Less Swap data3 a b pivot of
                 (data4, mid) \<Rightarrow>
                   if a < mid then pdqsort random_Next Less Swap data4 mid b limit1 wasBalanced wasPartitioned
                   else data4)
            else
              (case partition_slice Less Swap data3 a b pivot of
                 (data4, mid, alreadyPartitioned) \<Rightarrow>
                   if a \<le> mid \<and> mid < b then
                     (if mid - a < b - mid then
                        pdqsort random_Next Less Swap
                          (pdqsort random_Next Less Swap data4 a mid limit1 True True)
                          (mid + 1) b limit1 (mid - a \<ge> (b - a) div 8) alreadyPartitioned
                      else
                        pdqsort random_Next Less Swap
                          (pdqsort random_Next Less Swap data4 (mid + 1) b limit1 True True)
                          a mid limit1 (b - mid \<ge> (b - a) div 8) alreadyPartitioned)
                   else data4)))"
  by pat_completeness auto
termination
  by (relation "measure (\<lambda>(random_Next, Less, Swap, data, a, b, limit, wasBalanced, wasPartitioned). b - a)")
    auto

declare pdqsort.simps [simp del]

text \<open>
  \<open>sort.Sort(data)\<close>.
\<close>

definition sort_Sort ::
  "(64 word \<Rightarrow> 64 word) \<Rightarrow> ('a list \<Rightarrow> nat) \<Rightarrow> ('a list \<Rightarrow> nat \<Rightarrow> nat \<Rightarrow> bool) \<Rightarrow> ('a list \<Rightarrow> nat \<Rightarrow> nat \<Rightarrow> 'a list)
     \<Rightarrow> 'a list \<Rightarrow> 'a list"
where
  "sort_Sort random_Next Len Less Swap data =
     (let n = Len data in
      if n \<le> 1 then data
      else pdqsort random_Next Less Swap data 0 n (bits_Len n) True True)"

section \<open>LoadIndexXml\<close>

text \<open>
  The methods that make \<open>appList\<close> and \<open>apkList\<close> a \<open>sort.Interface\<close>. \<open>Less\<close> and
  \<open>Swap\<close> take indices into the slice. Go compares strings byte by byte, which is the
  lexicographic order of \<^typ>\<open>string\<close>.
\<close>

definition appList_Len :: "App list \<Rightarrow> nat" where
  "appList_Len al = length al"

definition appList_Swap :: "App list \<Rightarrow> nat \<Rightarrow> nat \<Rightarrow> App list" where
  "appList_Swap al i j = al[i := al ! j, j := al ! i]"

definition appList_Less :: "App list \<Rightarrow> nat \<Rightarrow> nat \<Rightarrow> bool" where
  "appList_Less al i j = (ID (al ! i) < ID (al ! j))"

definition apkList_Len :: "Apk list \<Rightarrow> nat" where
  "apkList_Len al = length al"

definition apkList_Swap :: "Apk list \<Rightarrow> nat \<Rightarrow> nat \<Rightarrow> Apk list" where
  "apkList_Swap al i j = al[i := al ! j, j := al ! i]"

definition apkList_Less :: "Apk list \<Rightarrow> nat \<Rightarrow> nat \<Rightarrow> bool" where
  "apkList_Less al i j = (VCode (al ! i) > VCode (al ! j))"

text \<open>\<open>sort.Sort(appList(...))\<close> and \<open>sort.Sort(apkList(...))\<close>.\<close>

definition sort_Sort_appList :: "App list \<Rightarrow> App list" where
  "sort_Sort_appList al = sort_Sort xorshift_Next appList_Len appList_Less appList_Swap al"

definition sort_Sort_apkList :: "Apk list \<Rightarrow> Apk list" where
  "sort_Sort_apkList al = sort_Sort xorshift_Next apkList_Len apkList_Less apkList_Swap al"

text \<open>
  The algorithm of \<open>sort.Sort\<close> is not part of its contract, which is only that it
  rearranges the slice with \<open>Swap\<close> until no later element is \<open>Less\<close> than an earlier one;
  "the sort is not guaranteed to be stable". \<open>LoadIndexXml\<close> therefore takes the two
  sorts it calls as arguments, and \<open>sort_Sort_contract\<close> is what may be assumed of them
  whatever the release of the library.
\<close>

definition sort_Sort_contract :: "('a list \<Rightarrow> nat \<Rightarrow> nat \<Rightarrow> bool) \<Rightarrow> ('a list \<Rightarrow> 'a list) \<Rightarrow> bool" where
  "sort_Sort_contract Less srt =
     (\<forall>al. mset (srt al) = mset al \<and>
           (\<forall>i j. i < j \<and> j < length (srt al) \<longrightarrow> \<not> Less (srt al) j i))"

definition zero_Index :: Index where
  "zero_Index = \<lparr>Repo = \<lparr>Repo_Name = [], Repo_PubKey = [], Repo_Timestamp = 0, Repo_URL = [],
     Repo_Version = 0, Repo_MaxAge = 0, Repo_Description = []\<rparr>, Apps = []\<rparr>"

text \<open>The body of \<open>for i := range index.Apps\<close>, for one app.\<close>

definition load_app :: "(Apk list \<Rightarrow> Apk list) \<Rightarrow> App \<Rightarrow> App" where
  "load_app sort_apkList app = calcCurApk (app\<lparr>Apks := sort_apkList (Apks app)\<rparr>)"

text \<open>
  \<open>LoadIndexXml\<close>. \<open>decoder_Decode\<close> is \<open>xml.NewDecoder(r).Decode(&index)\<close>: from the
  reader and the zero \<open>Index\<close> to what it has written into \<open>index\<close> and the error it
  returns. The result is Go's pair \<open>(*Index, error)\<close>, \<open>None\<close> for \<open>nil\<close>.
\<close>

definition LoadIndexXml ::
  "('r \<Rightarrow> Index \<Rightarrow> Index \<times> error option) \<Rightarrow> (App list \<Rightarrow> App list) \<Rightarrow> (Apk list \<Rightarrow> Apk list)
     \<Rightarrow> 'r \<Rightarrow> Index option \<times> error option" where
  "LoadIndexXml decoder_Decode sort_appList sort_apkList r =
     (case decoder_Decode r zero_Index of
        (index, Some err) \<Rightarrow> (None, Some err)
      | (index, None) \<Rightarrow>
          (let index1 = index\<lparr>Apps := sort_appList (Apps index)\<rparr>
           in (Some (index1\<lparr>Apps := map (load_app sort_apkList) (Apps index1)\<rparr>), None)))"

text \<open>
  What the claim of a stable sort says of one app: the packages of each version code come
  out in the order they went in.
\<close>

definition encounter_order_kept :: "Apk list \<Rightarrow> Apk list \<Rightarrow> bool" where
  "encounter_order_kept decoded sorted_apks =
     (\<forall>a \<in> set decoded. filter (\<lambda>b. VCode b = VCode a) sorted_apks
                        = filter (\<lambda>b. VCode b = VCode a) decoded)"

text \<open>
  Two sorts that meet the contract and keep the elements of equal key in their order, as
  \<open>sort.Sort\<close> does on a slice of at most 12 elements: by identifier, and by descending
  version code.
\<close>

definition sort_by_ID :: "App list \<Rightarrow> App list" where
  "sort_by_ID al = sort_key ID al"

definition sort_by_VCode_desc :: "Apk list \<Rightarrow> Apk list" where
  "sort_by_VCode_desc al = sort_key (\<lambda>apk. - VCode apk) al"

text \<open>
  The normalized index in the spec's words. An app is normalized from the decoded one
  when only its packages and its current package differ: the packages are the decoded
  ones sorted descending by version code, and the current package is the first one whose
  version code is at most the market version code, else the last one, else what the
  decoder left. The index is normalized when the repository data are the decoded ones and
  the apps are the decoded apps, each normalized, in ascending order of identifier.
\<close>

definition app_normalized :: "App \<Rightarrow> App \<Rightarrow> bool" where
  "app_normalized decoded app =
     (app = decoded\<lparr>Apks := Apks app, CurApk := CurApk app\<rparr>
      \<and> mset (Apks app) = mset (Apks decoded)
      \<and> sorted_desc (Apks app)
      \<and> CurApk app =
          (case find (\<lambda>apk. VCode apk \<le> CVCode decoded) (Apks app) of
             Some apk \<Rightarrow> Some apk
           | None \<Rightarrow> if Apks app = [] then CurApk decoded else Some (last (Apks app))))"

definition sorted_by_ID :: "App list \<Rightarrow> bool" where
  "sorted_by_ID apps = sorted_wrt (\<lambda>a b. ID a \<le> ID b) apps"

definition index_normalized :: "Index \<Rightarrow> Index \<Rightarrow> bool" where
  "index_normalized decoded index =
     (Repo index = Repo decoded
      \<and> sorted_by_ID (Apps index)
      \<and> (\<exists>apps. mset apps = mset (Apps decoded) \<and> list_all2 app_normalized apps (Apps index)))"

text \<open>Whether an error is one that wraps another.\<close>

definition is_wrapper :: "error \<Rightarrow> bool" where
  "is_wrapper err = (case err of Wrapped msg inner \<Rightarrow> True | _ \<Rightarrow> False)"

section \<open>Notions used to state the renderer's properties\<close>

declare wrap_loop.simps [simp del]

declare showNat.simps [simp del]

declare strings_Split.simps [simp del]

text \<open>
  The invariant of the token loop: the columns used and the line prefix fit in the 80
  columns, so the \<open>limit\<close> of a text run is never negative.
\<close>

definition cols_ok :: "render_state \<Rightarrow> bool" where
  "cols_ok st = (0 \<le> colsUsed st \<and> colsUsed st + int (length (linePrefix st)) \<le> 80)"

text \<open>A result of \<open>Token\<close> on which the loop breaks.\<close>

definition breaks :: "Token_result \<Rightarrow> bool" where
  "breaks r = (snd r = Some EOF \<or> fst r = None)"

text \<open>
  The addresses a token sequence records, in the spec's words: the address attribute of
  each hyperlink anchor, in the order the anchors are met.
\<close>

definition anchor_address :: "Token \<Rightarrow> string list" where
  "anchor_address t =
     (case t of
        StartElement name attrs \<Rightarrow>
          if Local name = ''a''
          then (case find (\<lambda>attr. Local (Attr_Name attr) = ''href'') attrs of
                  None \<Rightarrow> []
                | Some attr \<Rightarrow> [Attr_Value attr])
          else []
      | _ \<Rightarrow> [])"

definition recorded_links :: "Token list \<Rightarrow> string list" where
  "recorded_links ts = concat (map anchor_address ts)"

text \<open>The link section in the spec's words: one line \<open>[i] address\<close> per address, from \<open>i\<close> on.\<close>

definition link_lines :: "nat \<Rightarrow> string list \<Rightarrow> string" where
  "link_lines i ls =
     concat (map (\<lambda>(k, l). ''['' @ showInt (int k) @ ''] '' @ l @ ''\<newline>'') (enumerate i ls))"

definition link_section :: "string list \<Rightarrow> string" where
  "link_section ls = (if ls = [] then [] else ''\<newline>'' @ link_lines 0 ls)"

text \<open>
  The sample descriptions of the spec, each with the results of the \<open>Token\<close> calls on
  it: encoding/xml reports every start tag, text run and end tag in document order, then
  \<open>io.EOF\<close>. \<open>cut_markup\<close> ends inside its paragraph, which the decoder reports as a
  syntax error after the last complete token.
\<close>

definition list_markup :: string where
  "list_markup = ''<p>Intro</p><ul><li>One</li><li>Two</li></ul>''"

definition list_tokens :: "Token_result list" where
  "list_tokens = map tok [Start ''p'', CharData ''Intro'', End ''p'', Start ''ul'',
     Start ''li'', CharData ''One'', End ''li'', Start ''li'', CharData ''Two'', End ''li'',
     End ''ul'']"

definition link_markup :: string where
  "link_markup = ''<p>See <a href=\"http://x\">here</a>.</p>''"

definition link_tokens :: "Token_result list" where
  "link_tokens = map tok [Start ''p'', CharData ''See '', StartA ''http://x'', CharData ''here'',
     End ''a'', CharData ''.'', End ''p'']"

definition cut_markup :: string where
  "cut_markup = ''<p>See <a href=\"http://x\">here</a>.''"

definition cut_tokens :: "Token list" where
  "cut_tokens = [Start ''p'', CharData ''See '', StartA ''http://x'', CharData ''here'',
     End ''a'', CharData ''.'']"

definition long_run :: string where
  "long_run = replicate 90 (CHR ''x'')"

definition sample_Token :: "string \<Rightarrow> Token_result list" where
  "sample_Token s =
     (if s = list_markup then list_tokens
      else if s = link_markup then link_tokens
      else if s = cut_markup then map tok cut_tokens @ [(None, Some (SyntaxError ''unexpected EOF''))]
      else [])"

text \<open>A description without markup is one text run.\<close>

definition plain_Token :: "string \<Rightarrow> Token_result list" where
  "plain_Token s = [tok (CharData s)]"

definition app_with_desc :: "string \<Rightarrow> App" where
  "app_with_desc d = zero_App\<lparr>Desc := d\<rparr>"

section \<open>Sample indexes\<close>

text \<open>
  Index documents and what \<open>Decode\<close> writes for them; the elements a document leaves out
  stay at their zero values. \<open>two_builds_doc\<close> has one app with two builds of version code
  7, as a multi-ABI app has. \<open>thirteen_builds_doc\<close> has one app with twelve builds of
  version code 1 followed by one of version code 2. \<open>stray_CurApk_doc\<close> has an app with
  no \<open>package\<close> element but an element named \<open>CurApk\<close>: the field \<open>CurApk\<close> is exported
  and has no \<open>xml\<close> tag, so encoding/xml fills it from the element of its name.
  \<open>bad_date_doc\<close> has a package added on 30 February: the decoder stops with the error
  of \<open>DateVal.UnmarshalXML\<close>. On the empty input \<open>Decode\<close> returns \<open>io.EOF\<close>; on
  anything else \<open>sample_Decode\<close> is taken to report a syntax error.
\<close>

definition two_builds_doc :: string where
  "two_builds_doc = ''<fdroid><application><id>org.example</id><package><version>x86</version><versioncode>7</versioncode></package><package><version>arm</version><versioncode>7</versioncode></package></application></fdroid>''"

definition two_builds :: "Apk list" where
  "two_builds = [apk_of ''x86'' 7, apk_of ''arm'' 7]"

definition two_builds_app :: App where
  "two_builds_app = zero_App\<lparr>ID := ''org.example'', Apks := two_builds\<rparr>"

definition thirteen_builds_doc :: string where
  "thirteen_builds_doc =
     ''<fdroid><application><id>org.example</id><package><version>b00</versio'' @
     ''n><versioncode>1</versioncode></package><package><version>b01</version'' @
     ''><versioncode>1</versioncode></package><package><version>b02</version>'' @
     ''<versioncode>1</versioncode></package><package><version>b03</version><'' @
     ''versioncode>1</versioncode></package><package><version>b04</version><v'' @
     ''ersioncode>1</versioncode></package><package><version>b05</version><ve'' @
     ''rsioncode>1</versioncode></package><package><version>b06</version><ver'' @
     ''sioncode>1</versioncode></package><package><version>b07</version><vers'' @
     ''ioncode>1</versioncode></package><package><version>b08</version><versi'' @
     ''oncode>1</versioncode></package><package><version>b09</version><versio'' @
     ''ncode>1</versioncode></package><package><version>b10</version><version'' @
     ''code>1</versioncode></package><package><version>b11</version><versionc'' @
     ''ode>1</versioncode></package><package><version>b12</version><versionco'' @
     ''de>2</versioncode></package></application></fdroid>''"

definition thirteen_builds :: "Apk list" where
  "thirteen_builds =
    [apk_of ''b00'' 1, apk_of ''b01'' 1, apk_of ''b02'' 1, apk_of ''b03'' 1,
     apk_of ''b04'' 1, apk_of ''b05'' 1, apk_of ''b06'' 1, apk_of ''b07'' 1,
     apk_of ''b08'' 1, apk_of ''b09'' 1, apk_of ''b10'' 1, apk_of ''b11'' 1,
     apk_of ''b12'' 2]"

definition thirteen_builds_app :: App where
  "thirteen_builds_app = zero_App\<lparr>ID := ''org.example'', Apks := thirteen_builds\<rparr>"

definition stray_CurApk_doc :: string where
  "stray_CurApk_doc = ''<fdroid><application><id>org.example</id><CurApk><version>0.9</version><versioncode>3</versioncode></CurApk></application></fdroid>''"

definition stray_CurApk_app :: App where
  "stray_CurApk_app = zero_App\<lparr>ID := ''org.example'', CurApk := Some (apk_of ''0.9'' 3)\<rparr>"

definition bad_date_doc :: string where
  "bad_date_doc = ''<fdroid><application><id>org.example</id><package><version>1.0</version><versioncode>3</versioncode><added>2015-02-30</added></package></application></fdroid>''"

definition sample_Decode :: "string \<Rightarrow> Index \<Rightarrow> Index \<times> error option" where
  "sample_Decode r index =
     (if r = two_builds_doc then (index\<lparr>Apps := [two_builds_app]\<rparr>, None)
      else if r = thirteen_builds_doc then (index\<lparr>Apps := [thirteen_builds_app]\<rparr>, None)
      else if r = stray_CurApk_doc then (index\<lparr>Apps := [stray_CurApk_app]\<rparr>, None)
      else if r = bad_date_doc then
        (case DateVal_UnmarshalXML (Inr ''2015-02-30'') of
           Inl err \<Rightarrow> (index, Some err)
         | Inr added \<Rightarrow>
             (index\<lparr>Apps := [zero_App\<lparr>ID := ''org.example'',
                 Apks := [(apk_of ''1.0'' 3)\<lparr>Added := added\<rparr>]\<rparr>]\<rparr>, None))
      else if r = [] then (index, Some EOF)
      else (index, Some (SyntaxError ''unexpected input'')))"

section \<open>Properties of calcCurApk\<close>

lemma calcCurApk_loop_find:
  "calcCurApk_loop cv apks cur =
     (case find (\<lambda>apk. VCode apk \<le> cv) apks of
        Some apk \<Rightarrow> Some apk
      | None \<Rightarrow> if apks = [] then cur else Some (last apks))"
  by (induction apks arbitrary: cur) (auto split: option.split)

lemma sorted_desc_last_least:
  "sorted_desc apks \<Longrightarrow> apk \<in> set apks \<Longrightarrow> VCode (last apks) \<le> VCode apk"
  unfolding sorted_desc_def
  by (induction apks) auto

lemma CurApk_calcCurApk:
  "CurApk (calcCurApk app) = calcCurApk_loop (CVCode app) (Apks app) (CurApk app)"
  by (simp add: calcCurApk_def)

lemma app_of_simps:
  "Apks (app_of apks cv) = apks" "CVCode (app_of apks cv) = cv" "CurApk (app_of apks cv) = None"
  by (simp_all add: app_of_def zero_App_def)

lemma VCode_apk_of: "VCode (apk_of n c) = c"
  by (simp add: apk_of_def zero_Apk_def)

lemma sort_Sort_short: "length al \<le> 1 \<Longrightarrow> sort_Sort random_Next length Less Swap al = al"
  by (simp add: sort_Sort_def)

lemma sort_Sort_appList_single: "sort_Sort_appList [app] = [app]"
  by (simp add: sort_Sort_appList_def sort_Sort_def appList_Len_def)

lemma sort_Sort_apkList_Nil: "sort_Sort_apkList [] = []"
  by (simp add: sort_Sort_apkList_def sort_Sort_def apkList_Len_def)

lemma sample_Decode_stray:
  "sample_Decode stray_CurApk_doc zero_Index = (zero_Index\<lparr>Apps := [stray_CurApk_app]\<rparr>, None)"
  by (simp add: sample_Decode_def stray_CurApk_doc_def two_builds_doc_def thirteen_builds_doc_def)

lemma stray_CurApk_app_simps:
  "Apks stray_CurApk_app = []" "CurApk stray_CurApk_app = Some (apk_of ''0.9'' 3)"
  by (simp_all add: stray_CurApk_app_def zero_App_def)

lemma load_stray: "load_app sort_Sort_apkList stray_CurApk_app = stray_CurApk_app"
  by (simp add: load_app_def calcCurApk_def stray_CurApk_app_simps sort_Sort_apkList_Nil)

text \<open>
  C1, as amended. Current-package selection. For an app whose packages are not empty and
  sorted descending by version code, \<open>calcCurApk\<close> leaves in \<open>CurApk\<close> the first package,
  in the order of the walk, whose version code is at most the market version code
  \<open>CVCode\<close>; when there is none, the last package, whose version code is the lowest.
  With no packages \<open>calcCurApk\<close> leaves \<open>CurApk\<close> as it was, so it is absent when the
  decoder left it absent. Version codes \<open>[50,40,30]\<close> give 40 for market code 40 and 30
  for market code 0.
\<close>

theorem calcCurApk_selects:
  "(Apks app \<noteq> [] \<and> sorted_desc (Apks app) \<longrightarrow>
      (case find (\<lambda>apk. VCode apk \<le> CVCode app) (Apks app) of
         Some apk \<Rightarrow> CurApk (calcCurApk app) = Some apk
       | None \<Rightarrow> CurApk (calcCurApk app) = Some (last (Apks app))
                 \<and> (\<forall>apk \<in> set (Apks app). VCode (last (Apks app)) \<le> VCode apk)))
   \<and> (Apks app = [] \<longrightarrow> CurApk (calcCurApk app) = CurApk app)
   \<and> (map VCode (Apks app) = [50, 40, 30] \<longrightarrow>
        (CVCode app = 40 \<longrightarrow> map_option VCode (CurApk (calcCurApk app)) = Some 40) \<and>
        (CVCode app = 0 \<longrightarrow> map_option VCode (CurApk (calcCurApk app)) = Some 30))"
proof (intro conjI impI)
  assume a: "Apks app \<noteq> [] \<and> sorted_desc (Apks app)"
  show "case find (\<lambda>apk. VCode apk \<le> CVCode app) (Apks app) of
         Some apk \<Rightarrow> CurApk (calcCurApk app) = Some apk
       | None \<Rightarrow> CurApk (calcCurApk app) = Some (last (Apks app))
                 \<and> (\<forall>apk \<in> set (Apks app). VCode (last (Apks app)) \<le> VCode apk)"
    using a sorted_desc_last_least [of "Apks app"]
    by (simp add: CurApk_calcCurApk calcCurApk_loop_find split: option.split)
next
  assume "Apks app = []"
  then show "CurApk (calcCurApk app) = CurApk app"
    by (simp add: CurApk_calcCurApk)
next
  assume m: "map VCode (Apks app) = [50, 40, 30]" and c: "CVCode app = 40"
  from m obtain a b c' where "Apks app = [a, b, c']" "VCode a = 50" "VCode b = 40" "VCode c' = 30"
    by auto
  with c show "map_option VCode (CurApk (calcCurApk app)) = Some 40"
    by (simp add: CurApk_calcCurApk)
next
  assume m: "map VCode (Apks app) = [50, 40, 30]" and c: "CVCode app = 0"
  from m obtain a b c' where "Apks app = [a, b, c']" "VCode a = 50" "VCode b = 40" "VCode c' = 30"
    by auto
  with c show "map_option VCode (CurApk (calcCurApk app)) = Some 30"
    by (simp add: CurApk_calcCurApk)
qed

theorem calcCurApk_selects_witness:
  "sorted_desc [apk_of ''c'' 50, apk_of ''b'' 40, apk_of ''a'' 30]
   \<and> CurApk (calcCurApk (app_of [apk_of ''c'' 50, apk_of ''b'' 40, apk_of ''a'' 30] 40))
       = Some (apk_of ''b'' 40)
   \<and> CurApk (calcCurApk (app_of [apk_of ''c'' 50, apk_of ''b'' 40, apk_of ''a'' 30] 0))
       = Some (apk_of ''a'' 30)
   \<and> map_option VCode (CurApk (calcCurApk (app_of [apk_of ''c'' 50, apk_of ''b'' 40, apk_of ''a'' 30] 40)))
       = Some 40
   \<and> map_option VCode (CurApk (calcCurApk (app_of [apk_of ''c'' 50, apk_of ''b'' 40, apk_of ''a'' 30] 0)))
       = Some 30
   \<and> CurApk (calcCurApk (app_of [] 40)) = None"
proof -
  have s: "sorted_desc [apk_of ''c'' 50, apk_of ''b'' 40, apk_of ''a'' 30]"
    by (simp add: sorted_desc_def VCode_apk_of)
  show ?thesis
    using s
      calcCurApk_selects [of "app_of [apk_of ''c'' 50, apk_of ''b'' 40, apk_of ''a'' 30] 40"]
      calcCurApk_selects [of "app_of [apk_of ''c'' 50, apk_of ''b'' 40, apk_of ''a'' 30] 0"]
      calcCurApk_selects [of "app_of [] 40"]
    by (simp add: app_of_simps VCode_apk_of)
qed

text \<open>
  C1, as stated, fails in its last part. \<open>stray_CurApk_doc\<close> loads without error into an
  app that has no package and yet a current package: the decoder has filled \<open>CurApk\<close>, and
  \<open>calcCurApk\<close> has nothing to walk and does not clear it.
\<close>

theorem empty_packages_counterexample:
  "sample_Decode stray_CurApk_doc zero_Index = (zero_Index\<lparr>Apps := [stray_CurApk_app]\<rparr>, None)
   \<and> LoadIndexXml sample_Decode sort_Sort_appList sort_Sort_apkList stray_CurApk_doc
       = (Some (zero_Index\<lparr>Apps := [stray_CurApk_app]\<rparr>), None)
   \<and> Apks stray_CurApk_app = []
   \<and> CurApk stray_CurApk_app = Some (apk_of ''0.9'' 3)
   \<and> CurApk (calcCurApk stray_CurApk_app) \<noteq> None"
  by (simp add: LoadIndexXml_def sample_Decode_stray sort_Sort_appList_single load_stray
      stray_CurApk_app_simps CurApk_calcCurApk)

section \<open>Properties of TextDesc\<close>

lemma scan_last_range:
  "scan_last limit i cs lst = lst \<or> (i \<le> scan_last limit i cs lst \<and> scan_last limit i cs lst < i + length cs)"
proof (induction cs arbitrary: i lst)
  case Nil
  show ?case by simp
next
  case (Cons c cs)
  show ?case
    using Cons.IH [of "Suc i" "if c = CHR '' '' then i else lst"]
    by (auto split: if_splits)
qed

lemma scan_last_inside: "left \<noteq> [] \<Longrightarrow> scan_last limit 0 left 0 < length left"
  using scan_last_range [of limit 0 left 0] by auto

lemma wrap_loop_ok:
  "0 \<le> limit \<Longrightarrow> 0 \<le> cols \<Longrightarrow>
   \<exists>out' left' fl' cols'. wrap_loop lp out left limit fl cols = Some (out', left', fl', cols')
      \<and> 0 \<le> cols' \<and> cols' + int (length left') \<le> limit + cols"
proof (induction lp out left limit fl cols rule: wrap_loop.induct)
  case (1 lp out left limit firstLine cols)
  show ?case
  proof (cases "int (length left) > limit")
    case False
    then show ?thesis
      using "1.prems" by (simp add: wrap_loop.simps [of lp out left limit firstLine cols])
  next
    case True
    define lst where "lst = scan_last limit 0 left 0"
    define limit' where "limit' = (if firstLine then limit + cols else limit)"
    define out' where "out' = (if firstLine then out else out @ lp)"
    from True "1.prems" have ne: "left \<noteq> []" by auto
    then have inside: "lst < length left"
      unfolding lst_def by (rule scan_last_inside)
    then have nopanic: "\<not> Suc lst > length left" by simp
    have l': "0 \<le> limit'" "limit' \<le> limit + cols"
      using "1.prems" by (auto simp: limit'_def)
    have "\<exists>o' l' f' c'. wrap_loop lp (out' @ take lst left @ ''\<newline>'') (drop (Suc lst) left) limit' False 0
            = Some (o', l', f', c') \<and> 0 \<le> c' \<and> c' + int (length l') \<le> limit' + 0"
      using "1.IH" [OF True lst_def limit'_def out'_def nopanic] l' by simp
    moreover have "wrap_loop lp out left limit firstLine cols
        = wrap_loop lp (out' @ take lst left @ ''\<newline>'') (drop (Suc lst) left) limit' False 0"
      using True nopanic
      by (subst wrap_loop.simps) (simp add: Let_def lst_def limit'_def out'_def)
    ultimately show ?thesis
      using l' by auto
  qed
qed

lemma char_data_ok:
  assumes "cols_ok st"
  shows "\<exists>st'. char_data t st = Some st' \<and> cols_ok st' \<and> links st' = links st"
proof -
  define left where "left = (if linked st then t @ footnote (links st) else t)"
  define limit where "limit = 80 - int (length (linePrefix st)) - colsUsed st"
  from assms have "0 \<le> limit" "0 \<le> colsUsed st"
    by (auto simp: cols_ok_def limit_def)
  from wrap_loop_ok [OF this, of "linePrefix st" "w st" left True]
  obtain out' left' fl' cols' where
    r: "wrap_loop (linePrefix st) (w st) left limit True (colsUsed st) = Some (out', left', fl', cols')"
    and b: "0 \<le> cols'" "cols' + int (length left') \<le> limit + colsUsed st"
    by blast
  have "char_data t st = Some (st\<lparr>w := (if fl' then out' else out' @ linePrefix st) @ left',
                      colsUsed := cols' + int (length left'), linked := False\<rparr>)"
    using r by (simp add: char_data_def Let_def left_def limit_def)
  moreover have "cols_ok (st\<lparr>w := (if fl' then out' else out' @ linePrefix st) @ left',
                      colsUsed := cols' + int (length left'), linked := False\<rparr>)"
    using b by (simp add: cols_ok_def limit_def)
  ultimately show ?thesis by simp
qed

lemma anchor_attrs_find:
  "anchor_attrs attrs st =
     (case find (\<lambda>attr. Local (Attr_Name attr) = ''href'') attrs of
        None \<Rightarrow> st
      | Some attr \<Rightarrow> st\<lparr>links := links st @ [Attr_Value attr], linked := True\<rparr>)"
  by (induction attrs) auto

lemma start_element_ok:
  "cols_ok st \<Longrightarrow> cols_ok (start_element name attrs st)"
  by (auto simp: start_element_def cols_ok_def anchor_attrs_find split: option.split)

lemma start_element_links:
  "links (start_element name attrs st) = links st @ anchor_address (StartElement name attrs)"
  by (auto simp: start_element_def anchor_address_def anchor_attrs_find split: option.split)

lemma end_element_ok: "cols_ok st \<Longrightarrow> cols_ok (end_element name st)"
  by (auto simp: end_element_def cols_ok_def)

lemma end_element_links: "links (end_element name st) = links st"
  by (auto simp: end_element_def)

lemma token_step_ok:
  assumes "cols_ok st"
  shows "\<exists>st'. token_step t st = Some st' \<and> cols_ok st' \<and> links st' = links st @ anchor_address t"
proof (cases t)
  case (StartElement name attrs)
  then show ?thesis
    using assms by (simp add: start_element_ok start_element_links)
next
  case (EndElement name)
  then show ?thesis
    using assms by (simp add: end_element_ok end_element_links anchor_address_def)
next
  case (CharData s)
  then show ?thesis
    using char_data_ok [OF assms, of s] by (auto simp: anchor_address_def)
qed (use assms in \<open>simp_all add: anchor_address_def\<close>)

lemma TextDesc_loop_ok:
  "cols_ok st \<Longrightarrow> \<exists>st'. TextDesc_loop rs st = Some st' \<and> cols_ok st'"
proof (induction rs arbitrary: st)
  case Nil
  then show ?case by simp
next
  case (Cons r rs)
  obtain token err where r: "r = (token, err)" by (cases r)
  show ?case
  proof (cases "err = Some EOF \<or> token = None")
    case True
    then show ?thesis using Cons.prems r by auto
  next
    case False
    then obtain t where t: "token = Some t" by auto
    from token_step_ok [OF Cons.prems, of t] obtain st1 where
      s: "token_step t st = Some st1" "cols_ok st1" by blast
    from Cons.IH [OF s(2)] show ?thesis
      using False r t s(1) by simp
  qed
qed

lemma TextDesc_loop_tokens:
  "cols_ok st \<Longrightarrow>
   \<exists>st'. TextDesc_loop (map tok ts) st = Some st' \<and> cols_ok st' \<and> links st' = links st @ recorded_links ts"
proof (induction ts arbitrary: st)
  case Nil
  then show ?case by (simp add: recorded_links_def)
next
  case (Cons t ts)
  from token_step_ok [OF Cons.prems, of t] obtain st1 where
    s: "token_step t st = Some st1" "cols_ok st1" "links st1 = links st @ anchor_address t" by blast
  from Cons.IH [OF s(2)] show ?case
    using s(1,3) by (auto simp: tok_def recorded_links_def)
qed

lemma TextDesc_loop_breaks:
  "breaks r \<Longrightarrow> TextDesc_loop (map tok ts @ r # rest) st = TextDesc_loop (map tok ts) st"
proof (induction ts arbitrary: st)
  case Nil
  then show ?case by (cases r) (auto simp: breaks_def)
next
  case (Cons t ts)
  then show ?case by (simp add: tok_def split: option.split)
qed

lemma cols_ok_init: "cols_ok init_state"
  by (simp add: cols_ok_def init_state_def)

lemma print_links_lines: "print_links i ls out = out @ link_lines i ls"
  by (induction ls arbitrary: i out) (simp_all add: link_lines_def)

lemma TextDesc_end_section: "TextDesc_end st = w st @ link_section (links st)"
  by (simp add: TextDesc_end_def link_section_def print_links_lines)

lemma showNat_0: "showNat 0 = ''0''"
  by code_simp

lemmas render_defs = TextDesc_def init_state_def tok_def Start_def End_def StartA_def
  start_element_def end_element_def char_data_def footnote_def showInt_def TextDesc_end_def
  wrap_loop.simps Let_def

lemma Desc_app_with_desc: "Desc (app_with_desc d) = d"
  by (simp add: app_with_desc_def zero_App_def)

lemma sample_Token_cut:
  "sample_Token cut_markup = map tok cut_tokens @ (None, Some (SyntaxError ''unexpected EOF'')) # []"
  by (simp add: sample_Token_def cut_markup_def list_markup_def link_markup_def)

lemma sample_Token_list: "sample_Token list_markup = list_tokens"
  by (simp add: sample_Token_def)

lemma sample_Token_link: "sample_Token link_markup = link_tokens"
  by (simp add: sample_Token_def link_markup_def list_markup_def)

lemma cut_run: "TextDesc_loop (map tok cut_tokens) init_state =
   Some \<lparr>w = ''See here[0].'', firstParagraph = False, linePrefix = [], colsUsed = 12,
     links = [''http://x''], linked = False\<rparr>"
  by (simp add: cut_tokens_def render_defs showNat_0)

text \<open>
  C4. The renderer never fails. Whatever the decoder returns for the description,
  \<open>TextDesc\<close> ends and has written a result: no slice of the wrapping loop is out of
  range, because the columns used never exceed the 80 columns. When the decoder reports a
  problem (a \<open>nil\<close> token and an error) after the tokens \<open>ts\<close>, the loop stops there, in
  the state that rendering exactly \<open>ts\<close> gives, and what \<open>TextDesc\<close> has written is what
  it writes for a description that consists of the tokens \<open>ts\<close> alone: the body rendered
  from them, and then the link section.
\<close>

theorem TextDesc_never_fails:
  "(\<exists>out. TextDesc decoder_Token app = Some out)
   \<and> (decoder_Token (Desc app) = map tok ts @ (None, Some err) # rest \<longrightarrow>
        (\<exists>st. TextDesc_loop (map tok ts) init_state = Some st
            \<and> TextDesc_loop (decoder_Token (Desc app)) init_state = Some st
            \<and> TextDesc decoder_Token app = Some (TextDesc_end st)
            \<and> TextDesc_end st = w st @ link_section (links st))
        \<and> TextDesc decoder_Token app = TextDesc (\<lambda>desc. map tok ts) app)"
proof (intro conjI impI)
  from TextDesc_loop_ok [OF cols_ok_init, of "decoder_Token (Desc app)"]
  show "\<exists>out. TextDesc decoder_Token app = Some out"
    by (auto simp: TextDesc_def)
next
  assume d: "decoder_Token (Desc app) = map tok ts @ (None, Some err) # rest"
  from TextDesc_loop_ok [OF cols_ok_init, of "map tok ts"] obtain st where
    st: "TextDesc_loop (map tok ts) init_state = Some st" by blast
  have "breaks (None, Some err)"
    by (simp add: breaks_def)
  then have l: "TextDesc_loop (decoder_Token (Desc app)) init_state = Some st"
    using d st by (simp add: TextDesc_loop_breaks)
  then have "TextDesc decoder_Token app = Some (TextDesc_end st)"
    by (simp add: TextDesc_def)
  with st l show "\<exists>st. TextDesc_loop (map tok ts) init_state = Some st
            \<and> TextDesc_loop (decoder_Token (Desc app)) init_state = Some st
            \<and> TextDesc decoder_Token app = Some (TextDesc_end st)
            \<and> TextDesc_end st = w st @ link_section (links st)"
    by (simp add: TextDesc_end_section)
  from st l show "TextDesc decoder_Token app = TextDesc (\<lambda>desc. map tok ts) app"
    by (simp add: TextDesc_def)
qed

theorem TextDesc_never_fails_witness:
  "sample_Token (Desc (app_with_desc cut_markup))
     = map tok cut_tokens @ (None, Some (SyntaxError ''unexpected EOF'')) # []
   \<and> map_option w (TextDesc_loop (map tok cut_tokens) init_state) = Some ''See here[0].''
   \<and> map_option links (TextDesc_loop (map tok cut_tokens) init_state) = Some [''http://x'']
   \<and> TextDesc sample_Token (app_with_desc cut_markup)
       = Some (''See here[0].'' @ ''\<newline>[0] http://x\<newline>'')"
  using TextDesc_never_fails [of sample_Token "app_with_desc cut_markup" cut_tokens
      "SyntaxError ''unexpected EOF''" "[]"]
  by (auto simp: Desc_app_with_desc sample_Token_cut cut_run link_section_def link_lines_def
      enumerate_eq_zip showInt_def showNat_0 upt_rec)

text \<open>
  C10. When the decoder fails after the tokens \<open>ts\<close>, the addresses recorded from the
  anchors of \<open>ts\<close> are still written: the result is the truncated body, then, when there
  is an address, a line break and one line \<open>[i] address\<close> per address.
\<close>

theorem truncated_body_keeps_links:
  "decoder_Token (Desc app) = map tok ts @ (None, Some err) # rest \<longrightarrow>
     (\<exists>st. TextDesc_loop (map tok ts) init_state = Some st
          \<and> links st = recorded_links ts
          \<and> TextDesc decoder_Token app = Some (w st @ link_section (recorded_links ts)))"
proof
  assume d: "decoder_Token (Desc app) = map tok ts @ (None, Some err) # rest"
  from TextDesc_loop_tokens [OF cols_ok_init, of ts] obtain st where
    st: "TextDesc_loop (map tok ts) init_state = Some st" "links st = recorded_links ts"
    by (auto simp: init_state_def)
  have "breaks (None, Some err)"
    by (simp add: breaks_def)
  then have "TextDesc_loop (decoder_Token (Desc app)) init_state = Some st"
    using d st(1) by (simp add: TextDesc_loop_breaks)
  then have "TextDesc decoder_Token app = Some (w st @ link_section (recorded_links ts))"
    using st(2) by (simp add: TextDesc_def TextDesc_end_section)
  with st show "\<exists>st. TextDesc_loop (map tok ts) init_state = Some st
          \<and> links st = recorded_links ts
          \<and> TextDesc decoder_Token app = Some (w st @ link_section (recorded_links ts))"
    by simp
qed

lemma recorded_links_cut: "recorded_links cut_tokens = [''http://x'']"
  by (simp add: recorded_links_def cut_tokens_def anchor_address_def Start_def End_def StartA_def)

lemma link_section_one: "link_section [''http://x''] = ''\<newline>[0] http://x\<newline>''"
  by (simp add: link_section_def link_lines_def enumerate_eq_zip showInt_def showNat_0 upt_rec)

theorem truncated_body_keeps_links_witness:
  "sample_Token (Desc (app_with_desc cut_markup))
     = map tok cut_tokens @ (None, Some (SyntaxError ''unexpected EOF'')) # []
   \<and> TextDesc sample_Token (app_with_desc cut_markup)
       = Some ''See here[0].\<newline>[0] http://x\<newline>''"
  using truncated_body_keeps_links [of sample_Token "app_with_desc cut_markup" cut_tokens
      "SyntaxError ''unexpected EOF''" "[]"]
  by (auto simp: Desc_app_with_desc sample_Token_cut cut_run recorded_links_cut link_section_one)

lemma scan_last_no_space:
  "(\<forall>k < length cs. int (i + k) < limit \<longrightarrow> cs ! k \<noteq> CHR '' '') \<Longrightarrow> scan_last limit i cs lst = lst"
proof (induction cs arbitrary: i)
  case Nil
  show ?case by simp
next
  case (Cons c cs)
  show ?case
  proof (cases "int i \<ge> limit")
    case True
    then show ?thesis by simp
  next
    case False
    from Cons.prems [rule_format, of 0] False have c: "c \<noteq> CHR '' ''" by simp
    have "\<forall>k < length cs. int (Suc i + k) < limit \<longrightarrow> cs ! k \<noteq> CHR '' ''"
      using Cons.prems by (auto dest: spec [of _ "Suc k" for k])
    from Cons.IH [OF this] c False show ?thesis by simp
  qed
qed

lemma wrap_loop_no_space_step:
  assumes "0 \<le> limit" "int (length left) > limit"
    and "\<forall>i < length left. int i < limit \<longrightarrow> left ! i \<noteq> CHR '' ''"
  shows "wrap_loop lp out left limit firstLine cols =
         wrap_loop lp ((if firstLine then out else out @ lp) @ [] @ ''\<newline>'') (drop 1 left)
           (if firstLine then limit + cols else limit) False 0"
proof -
  have "scan_last limit 0 left 0 = 0"
    using assms(3) by (intro scan_last_no_space) simp
  moreover from assms(1,2) have "left \<noteq> []" by auto
  ultimately show ?thesis
    using assms(2) by (subst wrap_loop.simps) (auto simp: Let_def Suc_le_eq)
qed

lemma wrap_loop_long_run:
  "CHR '' '' \<notin> set t \<Longrightarrow> length t = 80 + k \<Longrightarrow>
   wrap_loop [] out t 80 fl 0 = Some (out @ replicate k (CHR 0x0A), drop k t, fl \<and> k = 0, 0)"
proof (induction k arbitrary: out t fl)
  case 0
  then show ?case by (simp add: wrap_loop.simps)
next
  case (Suc k)
  have ns: "\<forall>i < length t. int i < 80 \<longrightarrow> t ! i \<noteq> CHR '' ''"
    using Suc.prems(1) by (metis nth_mem)
  have "wrap_loop [] out t 80 fl 0 = wrap_loop [] (out @ ''\<newline>'') (drop 1 t) 80 False 0"
    using wrap_loop_no_space_step [of 80 t "[]" out fl 0] ns Suc.prems(2) by simp
  also have "\<dots> = Some ((out @ ''\<newline>'') @ replicate k (CHR 0x0A), drop k (drop 1 t), False \<and> k = 0, 0)"
    using Suc.prems by (intro Suc.IH) (auto dest: in_set_dropD)
  finally show ?case
    by (simp add: replicate_app_Cons_same)
qed

text \<open>
  C5. Word-wrap without a space. When a text run is longer than the budget \<open>limit\<close> and
  has no space before offset \<open>limit\<close>, the break point stays 0: one pass of the loop
  writes the empty segment \<open>left[:0]\<close> and a line break (after \<open>linePrefix\<close> on a
  continuation line) and goes on with \<open>left[1:]\<close>, the run without its first byte. So
  a single run of 90 bytes without a space, with empty \<open>linePrefix\<close> and no column
  used, comes out as ten line breaks followed by its last 80 bytes: one byte is dropped
  per pass until the rest fits. That is not the first 80 bytes, a line break and the
  last 10.
\<close>
theorem wrap_without_space:
  "(0 \<le> limit \<and> int (length left) > limit
      \<and> (\<forall>i < length left. int i < limit \<longrightarrow> left ! i \<noteq> CHR '' '') \<longrightarrow>
      scan_last limit 0 left 0 = 0
      \<and> wrap_loop lp out left limit firstLine cols =
          wrap_loop lp ((if firstLine then out else out @ lp) @ take 0 left @ ''\<newline>'') (drop 1 left)
            (if firstLine then limit + cols else limit) False 0)
   \<and> (length t = 90 \<and> CHR '' '' \<notin> set t \<and> decoder_Token (Desc app) = [tok (CharData t)] \<longrightarrow>
        TextDesc decoder_Token app = Some (replicate 10 (CHR 0x0A) @ drop 10 t)
        \<and> TextDesc decoder_Token app \<noteq> Some (take 80 t @ ''\<newline>'' @ drop 80 t))"
proof (intro conjI impI)
  assume a: "0 \<le> limit \<and> int (length left) > limit
      \<and> (\<forall>i < length left. int i < limit \<longrightarrow> left ! i \<noteq> CHR '' '')"
  then show "scan_last limit 0 left 0 = 0"
    by (intro scan_last_no_space) simp
  from a show "wrap_loop lp out left limit firstLine cols =
          wrap_loop lp ((if firstLine then out else out @ lp) @ take 0 left @ ''\<newline>'') (drop 1 left)
            (if firstLine then limit + cols else limit) False 0"
    using wrap_loop_no_space_step [of limit left lp out firstLine cols] by simp
next
  assume a: "length t = 90 \<and> CHR '' '' \<notin> set t \<and> decoder_Token (Desc app) = [tok (CharData t)]"
  then have "wrap_loop [] [] t 80 True 0 = Some ([] @ replicate 10 (CHR 0x0A), drop 10 t, True \<and> (10::nat) = 0, 0)"
    by (intro wrap_loop_long_run) simp_all
  with a show r: "TextDesc decoder_Token app = Some (replicate 10 (CHR 0x0A) @ drop 10 t)"
    by (simp add: TextDesc_def tok_def char_data_def init_state_def TextDesc_end_def)
  have "replicate 10 (CHR 0x0A) @ drop 10 t \<noteq> take 80 t @ ''\<newline>'' @ drop 80 t"
  proof
    assume "replicate 10 (CHR 0x0A) @ drop 10 t = take 80 t @ ''\<newline>'' @ drop 80 t"
    then have "length (replicate 10 (CHR 0x0A) @ drop 10 t) = length (take 80 t @ ''\<newline>'' @ drop 80 t)"
      by (rule arg_cong)
    with a show False by simp
  qed
  with r show "TextDesc decoder_Token app \<noteq> Some (take 80 t @ ''\<newline>'' @ drop 80 t)"
    by simp
qed


theorem wrap_without_space_witness:
  "(0::int) \<le> 80 \<and> int (length long_run) > 80
   \<and> length long_run = 90 \<and> CHR '' '' \<notin> set long_run
   \<and> plain_Token (Desc (app_with_desc long_run)) = [tok (CharData long_run)]
   \<and> wrap_loop [] [] long_run 80 True 0 = wrap_loop [] ''\<newline>'' (drop 1 long_run) 80 False 0
   \<and> TextDesc plain_Token (app_with_desc long_run)
        = Some (replicate 10 (CHR 0x0A) @ replicate 80 (CHR ''x''))"
proof -
  have h: "(0::int) \<le> 80" "int (length long_run) > 80"
    "\<forall>i < length long_run. int i < 80 \<longrightarrow> long_run ! i \<noteq> CHR '' ''"
    "length long_run = 90" "CHR '' '' \<notin> set long_run"
    "plain_Token (Desc (app_with_desc long_run)) = [tok (CharData long_run)]"
    by (simp_all add: long_run_def plain_Token_def Desc_app_with_desc)
  have d: "drop 10 long_run = replicate 80 (CHR ''x'')"
    by (simp add: long_run_def)
  show ?thesis
    using h d wrap_without_space [of 80 long_run "[]" "[]" True 0 long_run plain_Token
        "app_with_desc long_run"]
    by simp
qed

lemma list_tokens_render:
  "decoder_Token (Desc app) = list_tokens \<Longrightarrow>
   TextDesc decoder_Token app = Some ''Intro\<newline>\<newline> *One\<newline> *Two\<newline>''"
  by (simp add: list_tokens_def render_defs)

lemma link_tokens_render:
  "decoder_Token (Desc app) = link_tokens \<Longrightarrow>
   TextDesc decoder_Token app = Some ''See here[0].\<newline>\<newline>[0] http://x\<newline>''"
  by (simp add: link_tokens_def render_defs showNat_0)

text \<open>
  C6, as stated, fails. The tokens of \<open><p>Intro</p><ul><li>One</li><li>Two</li></ul>\<close>
  render to \<open>Intro\n\n *One\n *Two\n\<close>: the end of a list item writes nothing and the
  end of the list writes one line break, so the output ends with one line break and does
  not contain \<open>Intro\n\n *One\n *Two\n\n\<close>.
\<close>
theorem list_render_counterexample:
  "sample_Token (Desc (app_with_desc list_markup)) = list_tokens
   \<and> TextDesc sample_Token (app_with_desc list_markup)
       = Some ''Intro\<newline>\<newline> *One\<newline> *Two\<newline>''
   \<and> \<not> sublist ''Intro\<newline>\<newline> *One\<newline> *Two\<newline>\<newline>''
         ''Intro\<newline>\<newline> *One\<newline> *Two\<newline>''"
proof -
  have d: "sample_Token (Desc (app_with_desc list_markup)) = list_tokens"
    by (simp add: Desc_app_with_desc sample_Token_list)
  have "\<not> length ''Intro\<newline>\<newline> *One\<newline> *Two\<newline>\<newline>''
          \<le> length ''Intro\<newline>\<newline> *One\<newline> *Two\<newline>''"
    by simp
  then have "\<not> sublist ''Intro\<newline>\<newline> *One\<newline> *Two\<newline>\<newline>''
         ''Intro\<newline>\<newline> *One\<newline> *Two\<newline>''"
    using sublist_length_le by blast
  with d list_tokens_render [of sample_Token "app_with_desc list_markup"] show ?thesis
    by simp
qed

text \<open>
  C6, as amended. Rendering \<open><p>Intro</p><ul><li>One</li><li>Two</li></ul>\<close> produces
  exactly \<open>Intro\n\n *One\n *Two\n\<close>: each list item is introduced by a line break and
  the two characters \<open> *\<close>, the paragraph exit and the list exit write one line break
  each, and a list-item exit writes nothing.
\<close>

theorem list_render_exact:
  "Desc app = list_markup \<and> decoder_Token list_markup = list_tokens \<longrightarrow>
     TextDesc decoder_Token app = Some ''Intro\<newline>\<newline> *One\<newline> *Two\<newline>''"
  using list_tokens_render [of decoder_Token app] by simp

theorem list_render_exact_witness:
  "Desc (app_with_desc list_markup) = list_markup \<and> sample_Token list_markup = list_tokens
   \<and> TextDesc sample_Token (app_with_desc list_markup)
       = Some ''Intro\<newline>\<newline> *One\<newline> *Two\<newline>''"
  using list_render_exact [of "app_with_desc list_markup" sample_Token]
  by (simp add: Desc_app_with_desc sample_Token_list)

text \<open>
  C7. Rendering \<open><p>See <a href="http://x">here</a>.</p>\<close> produces exactly
  \<open>See here[0].\n\n[0] http://x\n\<close>. In general, a text run met while the flag of a
  recorded anchor is set is rendered as the run with \<open>[i]\<close> appended, \<open>i = len(links) - 1\<close>,
  and the flag is cleared; and the end of the document writes, when an address was
  recorded, a line break and then one line \<open>[i] address\<close> per address, \<open>i\<close> from 0 in
  recording order.
\<close>
theorem link_render:
  "(Desc app = link_markup \<and> decoder_Token link_markup = link_tokens \<longrightarrow>
      TextDesc decoder_Token app = Some ''See here[0].\<newline>\<newline>[0] http://x\<newline>'')
   \<and> (linked st \<longrightarrow>
        char_data t st
          = char_data (t @ ''['' @ showInt (int (length (links st)) - 1) @ '']'') (st\<lparr>linked := False\<rparr>))
   \<and> TextDesc_end st
        = w st @ (if links st = [] then []
                  else ''\<newline>'' @ concat (map (\<lambda>(i, address). ''['' @ showInt (int i) @ ''] '' @ address @ ''\<newline>'')
                                          (enumerate 0 (links st))))"
proof (intro conjI impI)
  assume "Desc app = link_markup \<and> decoder_Token link_markup = link_tokens"
  then show "TextDesc decoder_Token app = Some ''See here[0].\<newline>\<newline>[0] http://x\<newline>''"
    using link_tokens_render [of decoder_Token app] by simp
next
  assume "linked st"
  then show "char_data t st
          = char_data (t @ ''['' @ showInt (int (length (links st)) - 1) @ '']'') (st\<lparr>linked := False\<rparr>)"
    by (simp add: char_data_def footnote_def Let_def split: option.split)
next
  show "TextDesc_end st
        = w st @ (if links st = [] then []
                  else ''\<newline>'' @ concat (map (\<lambda>(i, address). ''['' @ showInt (int i) @ ''] '' @ address @ ''\<newline>'')
                                          (enumerate 0 (links st))))"
    by (simp add: TextDesc_end_section link_section_def link_lines_def)
qed

theorem link_render_witness:
  "Desc (app_with_desc link_markup) = link_markup \<and> sample_Token link_markup = link_tokens
   \<and> TextDesc sample_Token (app_with_desc link_markup)
       = Some ''See here[0].\<newline>\<newline>[0] http://x\<newline>''
   \<and> linked (init_state\<lparr>links := [''http://x''], linked := True\<rparr>)
   \<and> char_data ''here'' (init_state\<lparr>links := [''http://x''], linked := True\<rparr>)
       = char_data ''here[0]'' (init_state\<lparr>links := [''http://x'']\<rparr>)"
  using link_render [of "app_with_desc link_markup" sample_Token
      "init_state\<lparr>links := [''http://x''], linked := True\<rparr>" "''here''"]
  by (simp add: Desc_app_with_desc sample_Token_link showInt_def showNat_0 init_state_def)

section \<open>Properties of CommaList\<close>

lemma strings_Split_no_sep: "sep \<notin> set s \<Longrightarrow> strings_Split s sep = [s]"
proof -
  assume "sep \<notin> set s"
  then have d: "dropWhile (\<lambda>c. c \<noteq> sep) s = []"
    by (auto simp: dropWhile_eq_Nil_conv)
  show ?thesis
    by (subst strings_Split.simps) (simp only: d list.case)
qed

lemma strings_Split_at_sep:
  assumes "sep \<notin> set e"
  shows "strings_Split (e @ sep # rest) sep = e # strings_Split rest sep"
proof -
  have ne: "\<forall>x \<in> set e. x \<noteq> sep"
    using assms by auto
  have "dropWhile (\<lambda>c. c \<noteq> sep) (e @ sep # rest) = sep # rest"
    using ne by (simp add: dropWhile_append2)
  moreover have "takeWhile (\<lambda>c. c \<noteq> sep) (e @ sep # rest) = e"
    using ne by (simp add: takeWhile_tail)
  ultimately show ?thesis
    by (subst strings_Split.simps) simp
qed

lemma Split_Join:
  "cl \<noteq> [] \<Longrightarrow> \<forall>e \<in> set cl. sep \<notin> set e \<Longrightarrow> strings_Split (strings_Join cl sep) sep = cl"
proof (induction cl sep rule: strings_Join.induct)
  case (1 sep)
  then show ?case by simp
next
  case (2 e sep)
  then show ?case by (simp add: strings_Split_no_sep)
next
  case (3 e e' elems sep)
  then show ?case by (simp add: strings_Split_at_sep)
qed

text \<open>
  C9, as amended. For every list of strings that is not empty and whose elements contain
  no comma, splitting the joined list on commas gives the list back. Empty input is
  split into a single empty string.
\<close>

theorem CommaList_roundtrip:
  "(cl \<noteq> [] \<and> (\<forall>e \<in> set cl. CHR '','' \<notin> set e) \<longrightarrow>
      CommaList_FromString (CommaList_String cl) = cl)
   \<and> CommaList_FromString [] = [[]]"
proof (intro conjI impI)
  assume "cl \<noteq> [] \<and> (\<forall>e \<in> set cl. CHR '','' \<notin> set e)"
  then show "CommaList_FromString (CommaList_String cl) = cl"
    by (simp add: CommaList_FromString_def CommaList_String_def Split_Join)
next
  show "CommaList_FromString [] = [[]]"
    by (simp add: CommaList_FromString_def strings_Split_no_sep)
qed

theorem CommaList_roundtrip_witness:
  "[''armeabi'', '''', ''x86''] \<noteq> []
   \<and> CommaList_String [''armeabi'', '''', ''x86''] = ''armeabi,,x86''
   \<and> CommaList_FromString ''armeabi,,x86'' = [''armeabi'', '''', ''x86'']"
  using CommaList_roundtrip [of "[''armeabi'', '''', ''x86'']"]
  by (simp add: CommaList_String_def)

text \<open>
  C9, as stated, fails at the empty list, which has no element with a comma: it is joined
  to the empty string, and the empty string is split into one empty string.
\<close>

theorem CommaList_roundtrip_counterexample:
  "CommaList_String [] = [] \<and> CommaList_FromString (CommaList_String []) = [[]]
   \<and> CommaList_FromString (CommaList_String []) \<noteq> []"
  by (simp add: CommaList_FromString_def CommaList_String_def strings_Split_no_sep)

section \<open>Properties of DateVal\<close>

lemma digit_chars:
  "char_of (48::nat) = CHR ''0''" "char_of (49::nat) = CHR ''1''" "char_of (50::nat) = CHR ''2''"
  "char_of (51::nat) = CHR ''3''" "char_of (52::nat) = CHR ''4''" "char_of (53::nat) = CHR ''5''"
  "char_of (54::nat) = CHR ''6''" "char_of (55::nat) = CHR ''7''" "char_of (56::nat) = CHR ''8''"
  "char_of (57::nat) = CHR ''9''"
  by code_simp+

lemma digit_range: "(CHR ''0'' \<le> c \<and> c \<le> CHR ''9'') \<longleftrightarrow> (48 \<le> (of_char c :: nat) \<and> (of_char c :: nat) \<le> 57)"
  by (simp add: less_eq_char_def)

lemma not_digit_range: "(c < CHR ''0'' \<or> c > CHR ''9'') \<longleftrightarrow> \<not> (48 \<le> (of_char c :: nat) \<and> (of_char c :: nat) \<le> 57)"
  by (auto simp add: less_char_def)

lemma digit_val_dc: "d < 10 \<Longrightarrow> digit_val (char_of (48 + d)) = d"
  by (simp add: digit_val_def)

lemma dc_digit_val: "48 \<le> (of_char c :: nat) \<Longrightarrow> (of_char c :: nat) \<le> 57 \<Longrightarrow> char_of (48 + digit_val c) = c"
  by (simp add: digit_val_def)

lemma digit_val_less: "(of_char c :: nat) \<le> 57 \<Longrightarrow> digit_val c < 10"
  by (simp add: digit_val_def)

lemma range_cases:
  "48 \<le> (n::nat) \<Longrightarrow> n \<le> 57 \<Longrightarrow>
   n = 48 \<or> n = 49 \<or> n = 50 \<or> n = 51 \<or> n = 52 \<or> n = 53 \<or> n = 54 \<or> n = 55 \<or> n = 56 \<or> n = 57"
proof -
  assume a: "48 \<le> n" "n \<le> 57"
  have e: "[48..<58] = [48, 49, 50, 51, 52, 53, 54, 55, 56, 57::nat]"
    by code_simp
  from a have "48 \<le> n \<and> n < 58"
    by simp
  then have "n \<in> set [48..<58]"
    by (simp only: set_upt atLeastLessThan_iff)
  then have "n \<in> set [48, 49, 50, 51, 52, 53, 54, 55, 56, 57::nat]"
    by (simp only: e)
  then show ?thesis
    by (simp only: list.set insert_iff empty_iff simp_thms)
qed

lemma is_digit_char_range: "is_digit_char c \<longleftrightarrow> (48 \<le> (of_char c :: nat) \<and> (of_char c :: nat) \<le> 57)"
proof
  assume "is_digit_char c"
  then show "48 \<le> (of_char c :: nat) \<and> (of_char c :: nat) \<le> 57"
    by (auto simp: is_digit_char_def)
next
  assume a: "48 \<le> (of_char c :: nat) \<and> (of_char c :: nat) \<le> 57"
  define n :: nat where "n = of_char c"
  have c: "c = char_of n" by (simp add: n_def)
  from a have "48 \<le> n" "n \<le> 57"
    by (simp_all add: n_def)
  from range_cases [OF this] show "is_digit_char c"
    unfolding c is_digit_char_def by (elim disjE) (simp_all add: digit_chars)
qed

lemma isDigit_0: "isDigit s 0 \<longleftrightarrow> (\<exists>c rest. s = c # rest \<and> is_digit_char c)"
  by (cases s) (auto simp: isDigit_def is_digit_char_range digit_range)

lemma skip_Some: "skip s p = Some rest \<longleftrightarrow> s = p # rest"
  by (cases s) (auto simp: skip_def)

lemma getnum_fixed_Some:
  "getnum_fixed s = Some (n, rest) \<longleftrightarrow>
     (\<exists>a b. s = a # b # rest \<and> is_digit_char a \<and> is_digit_char b \<and> n = digit_val a * 10 + digit_val b)"
proof (cases s)
  case Nil
  then show ?thesis by (simp add: getnum_fixed_def isDigit_def)
next
  case (Cons a s')
  show ?thesis
  proof (cases s')
    case Nil
    with Cons show ?thesis by (simp add: getnum_fixed_def isDigit_def)
  next
    case (Cons b s'')
    with \<open>s = a # s'\<close> show ?thesis
      by (auto simp: getnum_fixed_def isDigit_def is_digit_char_range digit_range)
  qed
qed

lemma leadingInt_rest:
  "snd (leadingInt x cs) = [] \<longleftrightarrow> list_all is_digit_char cs"
  by (induction cs arbitrary: x) (auto simp: not_digit_range is_digit_char_range)

lemma leadingInt_value:
  "list_all is_digit_char cs \<Longrightarrow> fst (leadingInt x cs) = foldl (\<lambda>a c. a * 10 + digit_val c) x cs"
  by (induction cs arbitrary: x) (auto simp: not_digit_range is_digit_char_range)

lemma atoi_Some:
  "atoi p = Some q \<longleftrightarrow> list_all is_digit_char p \<and> q = foldl (\<lambda>a c. a * 10 + digit_val c) 0 p"
proof (cases "leadingInt 0 p")
  case (Pair v rem)
  then have "snd (leadingInt 0 p) = rem" "fst (leadingInt 0 p) = v"
    by simp_all
  with Pair leadingInt_rest [of 0 p] leadingInt_value [of p 0] show ?thesis
    by (auto simp: atoi_def)
qed

lemma time_Parse_shape:
  assumes "list_all is_digit_char [y1, y2, y3, y4, m1, m2, d1, d2]"
  shows "time_Parse [y1, y2, y3, y4, CHR ''-'', m1, m2, CHR ''-'', d1, d2] =
     (let d = date_of y1 y2 y3 y4 m1 m2 d1 d2 in
      if Month d \<le> 0 \<or> 12 < Month d then Inl (ParseError ''month out of range'')
      else if Day d < 1 \<or> Day d > daysIn (Month d) (Year d) then Inl (ParseError ''day out of range'')
      else Inr d)"
proof -
  have y: "atoi [y1, y2, y3, y4] = Some (digit_val y1 * 1000 + digit_val y2 * 100 + digit_val y3 * 10 + digit_val y4)"
    using assms by (simp add: atoi_Some)
  have i: "isDigit [y1, y2, y3, y4, CHR ''-'', m1, m2, CHR ''-'', d1, d2] 0"
    using assms by (simp add: isDigit_0)
  have m: "getnum_fixed [m1, m2, CHR ''-'', d1, d2] = Some (digit_val m1 * 10 + digit_val m2, [CHR ''-'', d1, d2])"
    using assms by (simp add: getnum_fixed_Some)
  have d: "getnum_fixed [d1, d2] = Some (digit_val d1 * 10 + digit_val d2, [])"
    using assms by (simp add: getnum_fixed_Some)
  show ?thesis
    unfolding time_Parse_def
    by (simp add: i y m d skip_def date_of_def Let_def)
qed

lemma time_Parse_Inr:
  assumes "time_Parse s = Inr d"
  shows "\<exists>y1 y2 y3 y4 m1 m2 d1 d2. s = [y1, y2, y3, y4, CHR ''-'', m1, m2, CHR ''-'', d1, d2]
           \<and> list_all is_digit_char [y1, y2, y3, y4, m1, m2, d1, d2]"
proof -
  from assms have len: "4 \<le> length s"
    by (auto simp: time_Parse_def split: if_splits)
  from assms obtain year where y: "atoi (take 4 s) = Some year"
    by (auto simp: time_Parse_def split: if_splits option.splits)
  from assms y obtain s1 where s1: "skip (drop 4 s) (CHR ''-'') = Some s1"
    by (auto simp: time_Parse_def split: if_splits option.splits)
  from assms y s1 obtain month s2 where m: "getnum_fixed s1 = Some (month, s2)"
    by (auto simp: time_Parse_def split: if_splits option.splits)
  from assms y s1 m obtain s3 where s3: "skip s2 (CHR ''-'') = Some s3"
    by (auto simp: time_Parse_def split: if_splits option.splits)
  from assms y s1 m s3 obtain day s4 where d: "getnum_fixed s3 = Some (day, s4)"
    by (auto simp: time_Parse_def split: if_splits option.splits)
  from assms y s1 m s3 d have s4: "s4 = []"
    by (auto simp: time_Parse_def split: if_splits option.splits)
  from m obtain m1 m2 where m': "s1 = m1 # m2 # s2" "is_digit_char m1" "is_digit_char m2"
    by (auto simp: getnum_fixed_Some)
  from d obtain d1 d2 where d': "s3 = d1 # d2 # s4" "is_digit_char d1" "is_digit_char d2"
    by (auto simp: getnum_fixed_Some)
  from s1 s3 m' d' s4 have rest: "drop 4 s = [CHR ''-'', m1, m2, CHR ''-'', d1, d2]"
    by (simp add: skip_Some)
  from len obtain y1 y2 y3 y4 where t: "take 4 s = [y1, y2, y3, y4]"
    by (cases s; cases "tl s"; cases "tl (tl s)"; cases "tl (tl (tl s))") auto
  have "s = take 4 s @ drop 4 s"
    by simp
  with t rest have "s = [y1, y2, y3, y4, CHR ''-'', m1, m2, CHR ''-'', d1, d2]"
    by simp
  moreover from y t have "list_all is_digit_char [y1, y2, y3, y4]"
    by (simp add: atoi_Some)
  ultimately show ?thesis
    using m' d' by auto
qed

lemma showNat_small: "n < 10 \<Longrightarrow> showNat n = [char_of (48 + n)]"
  by (subst showNat.simps) simp

lemma showNat_big: "10 \<le> n \<Longrightarrow> showNat n = showNat (n div 10) @ [char_of (48 + n mod 10)]"
  by (subst showNat.simps) simp

lemma replicate_small:
  "replicate 1 c = [c]" "replicate 2 c = [c, c]" "replicate 3 c = [c, c, c]"
  by (simp_all add: numeral_2_eq_2 numeral_3_eq_3)


lemma showNat_2:
  assumes "10 \<le> n" "n < 100"
  shows "showNat n = [char_of (48 + n div 10), char_of (48 + n mod 10)]"
proof -
  from assms have "n div 10 < 10" by simp
  then have "showNat (n div 10) = [char_of (48 + n div 10)]"
    by (rule showNat_small)
  with showNat_big [OF assms(1)] show ?thesis by simp
qed

lemma showNat_3:
  assumes "100 \<le> n" "n < 1000"
  shows "showNat n = [char_of (48 + n div 10 div 10), char_of (48 + n div 10 mod 10), char_of (48 + n mod 10)]"
proof -
  from assms have "10 \<le> n div 10" "n div 10 < 100" by simp_all
  then have "showNat (n div 10) = [char_of (48 + n div 10 div 10), char_of (48 + n div 10 mod 10)]"
    by (rule showNat_2)
  moreover from assms have "10 \<le> n" by simp
  ultimately show ?thesis
    using showNat_big [of n] by simp
qed

lemma showNat_4:
  assumes "1000 \<le> n" "n < 10000"
  shows "showNat n = [char_of (48 + n div 10 div 10 div 10), char_of (48 + n div 10 div 10 mod 10),
                char_of (48 + n div 10 mod 10), char_of (48 + n mod 10)]"
proof -
  from assms have "100 \<le> n div 10" "n div 10 < 1000" by simp_all
  then have "showNat (n div 10) = [char_of (48 + n div 10 div 10 div 10),
      char_of (48 + n div 10 div 10 mod 10), char_of (48 + n div 10 mod 10)]"
    by (rule showNat_3)
  moreover from assms have "10 \<le> n" by simp
  ultimately show ?thesis
    using showNat_big [of n] by simp
qed


lemma appendInt_2:
  assumes "n < 100"
  shows "appendInt n 2 = [char_of (48 + n div 10), char_of (48 + n mod 10)]"
proof (cases "n < 10")
  case True
  then show ?thesis
    by (simp add: appendInt_def showNat_small digit_chars replicate_small)
next
  case False
  with assms show ?thesis
    by (simp add: appendInt_def showNat_2)
qed

lemma appendInt_4:
  assumes "n < 10000"
  shows "appendInt n 4 = [char_of (48 + n div 10 div 10 div 10), char_of (48 + n div 10 div 10 mod 10),
                char_of (48 + n div 10 mod 10), char_of (48 + n mod 10)]"
proof -
  consider "n < 10" | "10 \<le> n" "n < 100" | "100 \<le> n" "n < 1000" | "1000 \<le> n"
    by linarith
  then show ?thesis
  proof cases
    case 1
    then show ?thesis
      by (simp add: appendInt_def showNat_small digit_chars replicate_small)
  next
    case 2
    then have "n div 10 < 10" by simp
    with 2 show ?thesis
      by (simp add: appendInt_def showNat_2 digit_chars replicate_small)
  next
    case 3
    then have "n div 10 div 10 < 10" by simp
    with 3 show ?thesis
      by (simp add: appendInt_def showNat_3 digit_chars replicate_small)
  next
    case 4
    with assms show ?thesis
      by (simp add: appendInt_def showNat_4)
  qed
qed

lemma YYYY_MM_DD_shape:
  "YYYY_MM_DD s \<longleftrightarrow>
     (\<exists>y1 y2 y3 y4 m1 m2 d1 d2. s = [y1, y2, y3, y4, CHR ''-'', m1, m2, CHR ''-'', d1, d2]
           \<and> list_all is_digit_char [y1, y2, y3, y4, m1, m2, d1, d2])"
  by (auto simp: YYYY_MM_DD_def split: list.splits)

lemma denoted_shape:
  "denoted [y1, y2, y3, y4, h1, m1, m2, h2, d1, d2] = date_of y1 y2 y3 y4 m1 m2 d1 d2"
  by (simp add: denoted_def date_of_def)

lemma digit_val_bound: "is_digit_char c \<Longrightarrow> digit_val c < 10"
  by (simp add: is_digit_char_range digit_val_less)

lemma Year_date_of_bound:
  assumes "list_all is_digit_char [y1, y2, y3, y4]"
  shows "Year (date_of y1 y2 y3 y4 m1 m2 d1 d2) \<le> 9999"
proof -
  from assms have "digit_val y1 < 10" "digit_val y2 < 10" "digit_val y3 < 10" "digit_val y4 < 10"
    by (simp_all add: digit_val_bound)
  then show ?thesis
    by (simp add: date_of_def)
qed

lemma daysIn_le: "daysIn m y \<le> 31"
  by (simp add: daysIn_def)

lemma is_digit_char_dc: "(k::nat) < 10 \<Longrightarrow> is_digit_char (char_of (48 + k))"
  by (simp add: is_digit_char_range)


lemma time_Format_shape:
  assumes "valid_date d"
  shows "time_Format d =
     [char_of (48 + Year d div 10 div 10 div 10), char_of (48 + Year d div 10 div 10 mod 10),
      char_of (48 + Year d div 10 mod 10), char_of (48 + Year d mod 10), CHR ''-'',
      char_of (48 + Month d div 10), char_of (48 + Month d mod 10), CHR ''-'',
      char_of (48 + Day d div 10), char_of (48 + Day d mod 10)]"
proof -
  from assms have y: "Year d < 10000" and m: "Month d < 100"
    by (simp_all add: valid_date_def)
  from assms daysIn_le [of "Month d" "Year d"] have dd: "Day d < 100"
    by (simp add: valid_date_def)
  show ?thesis
    by (simp add: time_Format_def appendInt_4 [OF y] appendInt_2 [OF m] appendInt_2 [OF dd])
qed


lemma decimal_4: "(a::nat) * 1000 + b * 100 + c * 10 + e = ((a * 10 + b) * 10 + c) * 10 + e"
  by simp

lemma year_digits:
  "(y::nat) div 10 div 10 div 10 * 1000 + y div 10 div 10 mod 10 * 100 + y div 10 mod 10 * 10 + y mod 10 = y"
proof -
  have a: "y div 10 div 10 div 10 * 10 + y div 10 div 10 mod 10 = y div 10 div 10"
    by (rule div_mult_mod_eq)
  have b: "y div 10 div 10 * 10 + y div 10 mod 10 = y div 10"
    by (rule div_mult_mod_eq)
  have c: "y div 10 * 10 + y mod 10 = y"
    by (rule div_mult_mod_eq)
  show ?thesis
    by (simp only: decimal_4 a b c)
qed


lemma date_of_digits:
  assumes "valid_date d"
  shows "date_of (char_of (48 + Year d div 10 div 10 div 10)) (char_of (48 + Year d div 10 div 10 mod 10))
      (char_of (48 + Year d div 10 mod 10)) (char_of (48 + Year d mod 10))
      (char_of (48 + Month d div 10)) (char_of (48 + Month d mod 10))
      (char_of (48 + Day d div 10)) (char_of (48 + Day d mod 10)) = d"
proof -
  from assms have y: "Year d < 10000" and m: "Month d < 100"
    by (simp_all add: valid_date_def)
  from assms daysIn_le [of "Month d" "Year d"] have dd: "Day d < 100"
    by (simp add: valid_date_def)
  have v: "digit_val (char_of (48 + Year d div 10 div 10 div 10)) = Year d div 10 div 10 div 10"
    "digit_val (char_of (48 + Year d div 10 div 10 mod 10)) = Year d div 10 div 10 mod 10"
    "digit_val (char_of (48 + Year d div 10 mod 10)) = Year d div 10 mod 10"
    "digit_val (char_of (48 + Year d mod 10)) = Year d mod 10"
    "digit_val (char_of (48 + Month d div 10)) = Month d div 10"
    "digit_val (char_of (48 + Month d mod 10)) = Month d mod 10"
    "digit_val (char_of (48 + Day d div 10)) = Day d div 10"
    "digit_val (char_of (48 + Day d mod 10)) = Day d mod 10"
    using y m dd by (simp_all add: digit_val_dc)
  have mm: "Month d div 10 * 10 + Month d mod 10 = Month d"
    by (rule div_mult_mod_eq)
  have dy: "Day d div 10 * 10 + Day d mod 10 = Day d"
    by (rule div_mult_mod_eq)
  have "date_of (char_of (48 + Year d div 10 div 10 div 10)) (char_of (48 + Year d div 10 div 10 mod 10))
      (char_of (48 + Year d div 10 mod 10)) (char_of (48 + Year d mod 10))
      (char_of (48 + Month d div 10)) (char_of (48 + Month d mod 10))
      (char_of (48 + Day d div 10)) (char_of (48 + Day d mod 10))
      = \<lparr>Year = Year d, Month = Month d, Day = Day d\<rparr>"
    by (simp only: date_of_def v year_digits mm dy)
  then show ?thesis
    by simp
qed

lemma format_digits:
  assumes "valid_date d"
  shows "list_all is_digit_char
     [char_of (48 + Year d div 10 div 10 div 10), char_of (48 + Year d div 10 div 10 mod 10),
      char_of (48 + Year d div 10 mod 10), char_of (48 + Year d mod 10),
      char_of (48 + Month d div 10), char_of (48 + Month d mod 10),
      char_of (48 + Day d div 10), char_of (48 + Day d mod 10)]"
proof -
  from assms have y: "Year d < 10000" and m: "Month d < 100"
    by (simp_all add: valid_date_def)
  from assms daysIn_le [of "Month d" "Year d"] have dd: "Day d < 100"
    by (simp add: valid_date_def)
  from y m dd show ?thesis
    by (simp add: is_digit_char_dc)
qed

lemma div_mod_digit: "(e::nat) < 10 \<Longrightarrow> (x * 10 + e) div 10 = x \<and> (x * 10 + e) mod 10 = e"
  by simp

lemma char_of_digit_val: "is_digit_char c \<Longrightarrow> char_of (48 + digit_val c) = c"
  by (simp add: is_digit_char_range dc_digit_val)

lemma format_date_of:
  assumes dg: "list_all is_digit_char [y1, y2, y3, y4, m1, m2, d1, d2]"
    and v: "valid_date (date_of y1 y2 y3 y4 m1 m2 d1 d2)"
  shows "time_Format (date_of y1 y2 y3 y4 m1 m2 d1 d2)
           = [y1, y2, y3, y4, CHR ''-'', m1, m2, CHR ''-'', d1, d2]"
proof -
  define d where "d = date_of y1 y2 y3 y4 m1 m2 d1 d2"
  from dg have b: "digit_val y2 < 10" "digit_val y3 < 10" "digit_val y4 < 10"
    "digit_val m2 < 10" "digit_val d2 < 10"
    by (simp_all add: digit_val_bound)
  have Y: "Year d = ((digit_val y1 * 10 + digit_val y2) * 10 + digit_val y3) * 10 + digit_val y4"
    by (simp only: d_def date_of_def DateVal.simps decimal_4)
  have M: "Month d = digit_val m1 * 10 + digit_val m2"
    by (simp only: d_def date_of_def DateVal.simps)
  have D: "Day d = digit_val d1 * 10 + digit_val d2"
    by (simp only: d_def date_of_def DateVal.simps)
  have y4: "Year d mod 10 = digit_val y4"
    unfolding Y by (rule div_mod_digit [OF b(3), THEN conjunct2])
  have y': "Year d div 10 = (digit_val y1 * 10 + digit_val y2) * 10 + digit_val y3"
    unfolding Y by (rule div_mod_digit [OF b(3), THEN conjunct1])
  have y3: "Year d div 10 mod 10 = digit_val y3"
    unfolding y' by (rule div_mod_digit [OF b(2), THEN conjunct2])
  have y'': "Year d div 10 div 10 = digit_val y1 * 10 + digit_val y2"
    unfolding y' by (rule div_mod_digit [OF b(2), THEN conjunct1])
  have y2: "Year d div 10 div 10 mod 10 = digit_val y2"
    unfolding y'' by (rule div_mod_digit [OF b(1), THEN conjunct2])
  have y1: "Year d div 10 div 10 div 10 = digit_val y1"
    unfolding y'' by (rule div_mod_digit [OF b(1), THEN conjunct1])
  have m: "Month d mod 10 = digit_val m2" "Month d div 10 = digit_val m1"
    unfolding M by (rule div_mod_digit [OF b(4), THEN conjunct2], rule div_mod_digit [OF b(4), THEN conjunct1])
  have dd: "Day d mod 10 = digit_val d2" "Day d div 10 = digit_val d1"
    unfolding D by (rule div_mod_digit [OF b(5), THEN conjunct2], rule div_mod_digit [OF b(5), THEN conjunct1])
  from dg have c: "char_of (48 + digit_val y1) = y1" "char_of (48 + digit_val y2) = y2"
    "char_of (48 + digit_val y3) = y3" "char_of (48 + digit_val y4) = y4"
    "char_of (48 + digit_val m1) = m1" "char_of (48 + digit_val m2) = m2"
    "char_of (48 + digit_val d1) = d1" "char_of (48 + digit_val d2) = d2"
    by (simp_all add: char_of_digit_val)
  from v have "valid_date d" by (simp only: d_def)
  from time_Format_shape [OF this] have "time_Format d = [y1, y2, y3, y4, CHR ''-'', m1, m2, CHR ''-'', d1, d2]"
    by (simp only: y1 y2 y3 y4 m dd c)
  then show ?thesis by (simp only: d_def)
qed


lemma valid_date_of:
  assumes "list_all is_digit_char [y1, y2, y3, y4, m1, m2, d1, d2]"
  shows "valid_date (date_of y1 y2 y3 y4 m1 m2 d1 d2) \<longleftrightarrow>
     \<not> (Month (date_of y1 y2 y3 y4 m1 m2 d1 d2) \<le> 0 \<or> 12 < Month (date_of y1 y2 y3 y4 m1 m2 d1 d2))
     \<and> \<not> (Day (date_of y1 y2 y3 y4 m1 m2 d1 d2) < 1
          \<or> Day (date_of y1 y2 y3 y4 m1 m2 d1 d2)
              > daysIn (Month (date_of y1 y2 y3 y4 m1 m2 d1 d2)) (Year (date_of y1 y2 y3 y4 m1 m2 d1 d2)))"
proof -
  from assms have "Year (date_of y1 y2 y3 y4 m1 m2 d1 d2) \<le> 9999"
    by (intro Year_date_of_bound) simp
  then show ?thesis
    unfolding valid_date_def by auto
qed

lemma time_Parse_Inr_iff:
  "time_Parse s = Inr d \<longleftrightarrow> YYYY_MM_DD s \<and> valid_date (denoted s) \<and> d = denoted s"
proof
  assume p: "time_Parse s = Inr d"
  from time_Parse_Inr [OF p] obtain y1 y2 y3 y4 m1 m2 d1 d2 where
    s: "s = [y1, y2, y3, y4, CHR ''-'', m1, m2, CHR ''-'', d1, d2]"
    and dg: "list_all is_digit_char [y1, y2, y3, y4, m1, m2, d1, d2]"
    by blast
  have sh: "YYYY_MM_DD s"
    unfolding YYYY_MM_DD_shape using s dg by blast
  have dn: "denoted s = date_of y1 y2 y3 y4 m1 m2 d1 d2"
    unfolding s by (rule denoted_shape)
  from p time_Parse_shape [OF dg] have "valid_date (date_of y1 y2 y3 y4 m1 m2 d1 d2)
      \<and> d = date_of y1 y2 y3 y4 m1 m2 d1 d2"
    unfolding s valid_date_of [OF dg] by (simp add: Let_def split: if_splits)
  with sh dn show "YYYY_MM_DD s \<and> valid_date (denoted s) \<and> d = denoted s"
    by simp
next
  assume a: "YYYY_MM_DD s \<and> valid_date (denoted s) \<and> d = denoted s"
  then obtain y1 y2 y3 y4 m1 m2 d1 d2 where
    s: "s = [y1, y2, y3, y4, CHR ''-'', m1, m2, CHR ''-'', d1, d2]"
    and dg: "list_all is_digit_char [y1, y2, y3, y4, m1, m2, d1, d2]"
    unfolding YYYY_MM_DD_shape by blast
  have dn: "denoted s = date_of y1 y2 y3 y4 m1 m2 d1 d2"
    unfolding s by (rule denoted_shape)
  from a dn have "valid_date (date_of y1 y2 y3 y4 m1 m2 d1 d2)" "d = date_of y1 y2 y3 y4 m1 m2 d1 d2"
    by simp_all
  then show "time_Parse s = Inr d"
    unfolding s time_Parse_shape [OF dg] valid_date_of [OF dg] by (simp add: Let_def)
qed

lemma time_Parse_error: "time_Parse s = Inl e \<Longrightarrow> \<exists>msg. e = ParseError msg"
  by (auto simp: time_Parse_def split: if_splits option.splits)

text \<open>
  C8. Decoding a date is strict and round-trips. \<open>DateVal.FromString\<close> succeeds exactly
  on the strings of the form \<open>YYYY-MM-DD\<close> that denote a valid calendar date, and then
  its result is that date and \<open>String\<close> gives the input back; on every other string it
  returns a parse error. For every valid date, \<open>String\<close> has the form \<open>YYYY-MM-DD\<close>
  and \<open>FromString\<close> of it is the date.
\<close>

theorem DateVal_strict_roundtrip:
  "((\<exists>dv. DateVal_FromString s = Inr dv) \<longleftrightarrow> YYYY_MM_DD s \<and> valid_date (denoted s))
   \<and> (DateVal_FromString s = Inr d \<longrightarrow> d = denoted s \<and> DateVal_String d = s)
   \<and> (\<not> (YYYY_MM_DD s \<and> valid_date (denoted s)) \<longrightarrow>
        (\<exists>msg. DateVal_FromString s = Inl (ParseError msg)))
   \<and> (valid_date d \<longrightarrow>
        YYYY_MM_DD (DateVal_String d) \<and> DateVal_FromString (DateVal_String d) = Inr d)"
proof -
  have F: "DateVal_FromString x = time_Parse x" for x
    by (simp add: DateVal_FromString_def split: sum.split)
  have 1: "(\<exists>dv. DateVal_FromString s = Inr dv) \<longleftrightarrow> YYYY_MM_DD s \<and> valid_date (denoted s)"
    unfolding F time_Parse_Inr_iff by blast
  have 2: "d = denoted s \<and> DateVal_String d = s" if p: "DateVal_FromString s = Inr d"
  proof -
    from p have a: "YYYY_MM_DD s" "valid_date (denoted s)" "d = denoted s"
      unfolding F time_Parse_Inr_iff by simp_all
    from a(1) obtain y1 y2 y3 y4 m1 m2 d1 d2 where
      s: "s = [y1, y2, y3, y4, CHR ''-'', m1, m2, CHR ''-'', d1, d2]"
      and dg: "list_all is_digit_char [y1, y2, y3, y4, m1, m2, d1, d2]"
      unfolding YYYY_MM_DD_shape by blast
    have dn: "denoted s = date_of y1 y2 y3 y4 m1 m2 d1 d2"
      unfolding s by (rule denoted_shape)
    from a(2) have v: "valid_date (date_of y1 y2 y3 y4 m1 m2 d1 d2)"
      by (simp only: dn)
    have "time_Format (date_of y1 y2 y3 y4 m1 m2 d1 d2) = s"
      unfolding s by (rule format_date_of [OF dg v])
    with a(3) dn show ?thesis
      by (simp add: DateVal_String_def)
  qed
  have 3: "\<exists>msg. DateVal_FromString s = Inl (ParseError msg)"
    if n: "\<not> (YYYY_MM_DD s \<and> valid_date (denoted s))"
  proof (cases "time_Parse s")
    case (Inl e)
    with time_Parse_error [OF Inl] show ?thesis
      unfolding F by simp
  next
    case (Inr dv)
    with n show ?thesis
      unfolding time_Parse_Inr_iff by simp
  qed
  have 4: "YYYY_MM_DD (DateVal_String d) \<and> DateVal_FromString (DateVal_String d) = Inr d"
    if v: "valid_date d"
  proof -
    have sh: "YYYY_MM_DD (time_Format d)"
      unfolding YYYY_MM_DD_shape time_Format_shape [OF v] using format_digits [OF v] by blast
    have "denoted (time_Format d) = d"
      unfolding time_Format_shape [OF v] denoted_shape by (rule date_of_digits [OF v])
    with sh v have "time_Parse (time_Format d) = Inr d"
      unfolding time_Parse_Inr_iff by simp
    with sh show ?thesis
      by (simp add: F DateVal_String_def)
  qed
  from 1 2 3 4 show ?thesis
    by blast
qed

lemma digit_vals:
  "digit_val (CHR ''0'') = 0" "digit_val (CHR ''1'') = 1" "digit_val (CHR ''2'') = 2"
  "digit_val (CHR ''3'') = 3" "digit_val (CHR ''4'') = 4" "digit_val (CHR ''5'') = 5"
  "digit_val (CHR ''6'') = 6" "digit_val (CHR ''7'') = 7" "digit_val (CHR ''8'') = 8"
  "digit_val (CHR ''9'') = 9"
  by (simp_all add: digit_val_def)

lemma sample_date: "YYYY_MM_DD ''2015-02-28'' \<and> denoted ''2015-02-28'' = \<lparr>Year = 2015, Month = 2, Day = 28\<rparr>
  \<and> valid_date \<lparr>Year = 2015, Month = 2, Day = 28\<rparr>"
  by (simp add: YYYY_MM_DD_def is_digit_char_def denoted_def digit_vals valid_date_def daysIn_def)

lemma sample_bad_date: "YYYY_MM_DD ''2015-02-29'' \<and> denoted ''2015-02-29'' = \<lparr>Year = 2015, Month = 2, Day = 29\<rparr>
  \<and> \<not> valid_date \<lparr>Year = 2015, Month = 2, Day = 29\<rparr>"
  by (simp add: YYYY_MM_DD_def is_digit_char_def denoted_def digit_vals valid_date_def daysIn_def isLeap_def)

lemma sample_String: "DateVal_String \<lparr>Year = 2015, Month = 2, Day = 28\<rparr> = ''2015-02-28''"
  by (simp add: DateVal_String_def time_Format_def appendInt_4 appendInt_2 digit_chars)

theorem DateVal_strict_roundtrip_witness:
  "DateVal_FromString ''2015-02-28'' = Inr \<lparr>Year = 2015, Month = 2, Day = 28\<rparr>
   \<and> DateVal_String \<lparr>Year = 2015, Month = 2, Day = 28\<rparr> = ''2015-02-28''
   \<and> valid_date \<lparr>Year = 2015, Month = 2, Day = 28\<rparr>
   \<and> \<not> valid_date (denoted ''2015-02-29'')
   \<and> isl (DateVal_FromString ''2015-02-29'')"
  using DateVal_strict_roundtrip [of "''2015-02-28''" "\<lparr>Year = 2015, Month = 2, Day = 28\<rparr>"]
    DateVal_strict_roundtrip [of "''2015-02-29''" "\<lparr>Year = 2015, Month = 2, Day = 28\<rparr>"]
    sample_date sample_bad_date sample_String
  by auto

section \<open>Properties of sort.Sort\<close>

text \<open>
  The bounds on what \<open>partition\<close> and \<open>partitionEqual\<close> return: the index \<open>mid\<close> lies in
  the slice, so that both recursive calls of \<open>pdqsort\<close> are on shorter slices and the
  branches of the model for any other \<open>mid\<close> are dead.
\<close>

lemma scan_up_ge: "i \<le> scan_up Less data a i j"
  by (induction Less data a i j rule: scan_up.induct) (subst scan_up.simps, auto)

lemma scan_up_le: "i \<le> j + 1 \<Longrightarrow> scan_up Less data a i j \<le> j + 1"
  by (induction Less data a i j rule: scan_up.induct) (subst scan_up.simps, auto)

lemma scan_up_past: "j < i \<Longrightarrow> scan_up Less data a i j = i"
  by (subst scan_up.simps) simp

lemma scan_down_le: "scan_down Less data a i j \<le> j"
  by (induction Less data a i j rule: scan_down.induct) (subst scan_down.simps, auto)

lemma scan_down_ge: "i \<le> j + 1 \<Longrightarrow> i \<le> scan_down Less data a i j + 1"
  by (induction Less data a i j rule: scan_down.induct) (subst scan_down.simps, auto)

lemma scan_down_past: "j < i \<Longrightarrow> scan_down Less data a i j = j"
  by (subst scan_down.simps) simp

lemma partition_loop_bounds:
  "i \<le> j + 2 \<Longrightarrow> partition_loop Less Swap a i j data = (data', j') \<Longrightarrow> j' \<le> j \<and> i \<le> j' + 2"
proof (induction Less Swap a i j data arbitrary: data' j' rule: partition_loop.induct)
  case (1 Less Swap a i j data)
  define i1 where "i1 = scan_up Less data a i j"
  define j1 where "j1 = scan_down Less data a i1 j"
  have i1: "i \<le> i1" unfolding i1_def by (rule scan_up_ge)
  have j1: "j1 \<le> j" unfolding j1_def by (rule scan_down_le)
  show ?case
  proof (cases "i1 > j1")
    case True
    with "1.prems"(2) have r: "j' = j1"
      by (subst (asm) partition_loop.simps) (auto simp: Let_def i1_def j1_def)
    show ?thesis
    proof (cases "i \<le> j + 1")
      case True
      then have "i1 \<le> j + 1" unfolding i1_def by (rule scan_up_le)
      then have "i1 \<le> j1 + 1" unfolding j1_def by (rule scan_down_ge)
      with i1 j1 r show ?thesis by simp
    next
      case False
      then have "j < i" by simp
      then have "i1 = i" unfolding i1_def by (rule scan_up_past)
      with \<open>j < i\<close> have "j1 = j" unfolding j1_def by (simp add: scan_down_past)
      with r "1.prems"(1) show ?thesis by simp
    qed
  next
    case False
    with "1.prems"(2) have r: "partition_loop Less Swap a (i1 + 1) (j1 - 1) (Swap data i1 j1) = (data', j')"
      by (subst (asm) partition_loop.simps) (simp add: Let_def i1_def j1_def)
    from False have "i1 + 1 \<le> j1 - 1 + 2" by simp
    from "1.IH" [OF i1_def j1_def False this r] have "j' \<le> j1 - 1 \<and> i1 + 1 \<le> j' + 2" .
    with i1 j1 show ?thesis by arith
  qed
qed

lemma partition_slice_mid:
  assumes "a < b" "partition_slice Less Swap data a b pivot = (data', mid, already)"
  shows "a \<le> mid \<and> mid < b"
proof -
  define d1 where "d1 = Swap data a pivot"
  define i where "i = scan_up Less d1 a (a + 1) (b - 1)"
  define j where "j = scan_down Less d1 a i (b - 1)"
  have i1: "a + 1 \<le> i" unfolding i_def by (rule scan_up_ge)
  have "i \<le> b - 1 + 1" unfolding i_def using assms(1) by (intro scan_up_le) simp
  then have j1: "i \<le> j + 1" unfolding j_def by (rule scan_down_ge)
  have j2: "j \<le> b - 1" unfolding j_def by (rule scan_down_le)
  show ?thesis
  proof (cases "i > j")
    case True
    with assms(2) have "mid = j"
      by (simp add: partition_slice_def Let_def d1_def i_def j_def)
    with i1 j1 j2 assms(1) show ?thesis by simp
  next
    case False
    obtain d2 j' where l: "partition_loop Less Swap a (i + 1) (j - 1) (Swap d1 i j) = (d2, j')"
      by (cases "partition_loop Less Swap a (i + 1) (j - 1) (Swap d1 i j)")
    with False assms(2) have m: "mid = j'"
      by (simp add: partition_slice_def Let_def d1_def i_def j_def)
    from False have "i + 1 \<le> j - 1 + 2" by simp
    from partition_loop_bounds [OF this l] have "j' \<le> j - 1 \<and> i + 1 \<le> j' + 2" .
    with m i1 j2 assms(1) show ?thesis by arith
  qed
qed

lemma scanEqual_up_ge: "i \<le> scanEqual_up Less data a i j"
  by (induction Less data a i j rule: scanEqual_up.induct) (subst scanEqual_up.simps, auto)

lemma partitionEqual_loop_ge:
  "partitionEqual_loop Less Swap a i j data = (data', mid) \<Longrightarrow> i \<le> mid"
proof (induction Less Swap a i j data arbitrary: data' mid rule: partitionEqual_loop.induct)
  case (1 Less Swap a i j data)
  define i1 where "i1 = scanEqual_up Less data a i j"
  define j1 where "j1 = scanEqual_down Less data a i1 j"
  have i1: "i \<le> i1" unfolding i1_def by (rule scanEqual_up_ge)
  show ?case
  proof (cases "i1 > j1")
    case True
    with "1.prems" have "mid = i1"
      by (subst (asm) partitionEqual_loop.simps) (auto simp: Let_def i1_def j1_def)
    with i1 show ?thesis by simp
  next
    case False
    with "1.prems" have r: "partitionEqual_loop Less Swap a (i1 + 1) (j1 - 1) (Swap data i1 j1) = (data', mid)"
      by (subst (asm) partitionEqual_loop.simps) (simp add: Let_def i1_def j1_def)
    from "1.IH" [OF i1_def j1_def False r] i1 show ?thesis by simp
  qed
qed

lemma partitionEqual_mid:
  "partitionEqual Less Swap data a b pivot = (data', mid) \<Longrightarrow> a < mid"
  using partitionEqual_loop_ge [of Less Swap a "a + 1" "b - 1" "Swap data a pivot" data' mid]
  by (simp add: partitionEqual_def)

section \<open>Properties of LoadIndexXml\<close>

lemma sort_by_ID_contract: "sort_Sort_contract appList_Less sort_by_ID"
  unfolding sort_Sort_contract_def
proof (intro allI conjI impI)
  fix al :: "App list"
  show "mset (sort_by_ID al) = mset al"
    by (simp add: sort_by_ID_def)
next
  fix al :: "App list" and i j
  assume "i < j \<and> j < length (sort_by_ID al)"
  moreover have "sorted (map ID (sort_by_ID al))"
    by (simp add: sort_by_ID_def)
  ultimately have "ID (sort_by_ID al ! i) \<le> ID (sort_by_ID al ! j)"
    by (auto simp: sorted_iff_nth_mono dest!: spec [of _ i] spec [of _ j])
  then show "\<not> appList_Less (sort_by_ID al) j i"
    by (simp add: appList_Less_def not_less)
qed

lemma sort_by_VCode_desc_contract: "sort_Sort_contract apkList_Less sort_by_VCode_desc"
  unfolding sort_Sort_contract_def
proof (intro allI conjI impI)
  fix al :: "Apk list"
  show "mset (sort_by_VCode_desc al) = mset al"
    by (simp add: sort_by_VCode_desc_def)
next
  fix al :: "Apk list" and i j
  assume ij: "i < j \<and> j < length (sort_by_VCode_desc al)"
  have "sorted (map (\<lambda>apk. - VCode apk) (sort_by_VCode_desc al))"
    by (simp add: sort_by_VCode_desc_def)
  with ij have "- VCode (sort_by_VCode_desc al ! i) \<le> - VCode (sort_by_VCode_desc al ! j)"
    by (auto simp: sorted_iff_nth_mono dest!: spec [of _ i] spec [of _ j])
  then show "\<not> apkList_Less (sort_by_VCode_desc al) j i"
    by (simp add: apkList_Less_def)
qed

lemma contract_sorted_desc:
  assumes "sort_Sort_contract apkList_Less srt"
  shows "sorted_desc (srt al)"
  unfolding sorted_desc_def sorted_wrt_iff_nth_less
proof (intro allI impI)
  fix i j
  assume "i < j" "j < length (srt al)"
  with assms have "\<not> apkList_Less (srt al) j i"
    by (simp add: sort_Sort_contract_def)
  then show "VCode (srt al ! j) \<le> VCode (srt al ! i)"
    by (simp add: apkList_Less_def)
qed

lemma contract_sorted_by_ID:
  assumes "sort_Sort_contract appList_Less srt"
  shows "sorted_by_ID (srt al)"
  unfolding sorted_by_ID_def sorted_wrt_iff_nth_less
proof (intro allI impI)
  fix i j
  assume "i < j" "j < length (srt al)"
  with assms have "\<not> appList_Less (srt al) j i"
    by (simp add: sort_Sort_contract_def)
  then show "ID (srt al ! i) \<le> ID (srt al ! j)"
    by (simp add: appList_Less_def not_less)
qed

lemma Apks_load_app: "Apks (load_app srt app) = srt (Apks app)"
  by (simp add: load_app_def calcCurApk_def)

lemma ID_load_app: "ID (load_app srt app) = ID app"
  by (simp add: load_app_def calcCurApk_def)

lemma CurApk_load_app:
  "CurApk (load_app srt app) = calcCurApk_loop (CVCode app) (srt (Apks app)) (CurApk app)"
  by (simp add: load_app_def calcCurApk_def)

lemma load_app_fields:
  "load_app srt app = app\<lparr>Apks := Apks (load_app srt app), CurApk := CurApk (load_app srt app)\<rparr>"
  by (simp add: load_app_def calcCurApk_def)

lemma app_normalized_load_app:
  assumes "sort_Sort_contract apkList_Less srt"
  shows "app_normalized app (load_app srt app)"
proof -
  have m: "mset (srt (Apks app)) = mset (Apks app)"
    using assms by (simp add: sort_Sort_contract_def)
  then have e: "srt (Apks app) = [] \<longleftrightarrow> Apks app = []"
    by (metis mset_zero_iff)
  have 1: "load_app srt app
      = app\<lparr>Apks := Apks (load_app srt app), CurApk := CurApk (load_app srt app)\<rparr>"
    by (rule load_app_fields)
  have 2: "mset (Apks (load_app srt app)) = mset (Apks app)"
    by (simp add: Apks_load_app m)
  have 3: "sorted_desc (Apks (load_app srt app))"
    by (simp add: Apks_load_app contract_sorted_desc [OF assms])
  have 4: "CurApk (load_app srt app) =
      (case find (\<lambda>apk. VCode apk \<le> CVCode app) (Apks (load_app srt app)) of
         Some apk \<Rightarrow> Some apk
       | None \<Rightarrow> if Apks (load_app srt app) = [] then CurApk app
                 else Some (last (Apks (load_app srt app))))"
    unfolding Apks_load_app CurApk_load_app by (simp add: calcCurApk_loop_find)
  from 1 2 3 4 show ?thesis
    unfolding app_normalized_def by blast
qed

lemma LoadIndexXml_ok:
  "decoder_Decode r zero_Index = (index, None) \<Longrightarrow>
   LoadIndexXml decoder_Decode sort_appList sort_apkList r
     = (Some (index\<lparr>Apps := map (load_app sort_apkList) (sort_appList (Apps index))\<rparr>), None)"
  by (simp add: LoadIndexXml_def Let_def)

lemma LoadIndexXml_err:
  "decoder_Decode r zero_Index = (index, Some err) \<Longrightarrow>
   LoadIndexXml decoder_Decode sort_appList sort_apkList r = (None, Some err)"
  by (simp add: LoadIndexXml_def)

lemma index_normalized_load:
  assumes "sort_Sort_contract appList_Less sort_appList" "sort_Sort_contract apkList_Less sort_apkList"
  shows "index_normalized decoded
           (decoded\<lparr>Apps := map (load_app sort_apkList) (sort_appList (Apps decoded))\<rparr>)"
proof -
  have "sorted_by_ID (sort_appList (Apps decoded))"
    by (rule contract_sorted_by_ID [OF assms(1)])
  then have 1: "sorted_by_ID (map (load_app sort_apkList) (sort_appList (Apps decoded)))"
    by (simp add: sorted_by_ID_def sorted_wrt_map ID_load_app)
  have 2: "mset (sort_appList (Apps decoded)) = mset (Apps decoded)"
    using assms(1) by (simp add: sort_Sort_contract_def)
  have 3: "list_all2 app_normalized (sort_appList (Apps decoded))
             (map (load_app sort_apkList) (sort_appList (Apps decoded)))"
    by (simp add: list_all2_map2 list_all2_same app_normalized_load_app [OF assms(2)])
  from 1 2 3 show ?thesis
    unfolding index_normalized_def by auto
qed

text \<open>
  On thirteen builds \<open>sort.Sort\<close> partitions once and sorts both parts by insertion: it
  never draws a pseudo-random number, so the result is the same whatever the generator.
\<close>

lemma sort_thirteen_any_generator:
  "sort_Sort random_Next apkList_Len apkList_Less apkList_Swap thirteen_builds =
     [apk_of ''b12'' 2, apk_of ''b06'' 1, apk_of ''b02'' 1, apk_of ''b03'' 1, apk_of ''b04'' 1,
      apk_of ''b05'' 1, apk_of ''b00'' 1, apk_of ''b07'' 1, apk_of ''b08'' 1, apk_of ''b09'' 1,
      apk_of ''b10'' 1, apk_of ''b11'' 1, apk_of ''b01'' 1]"
  by code_simp

lemma sort_thirteen:
  "sort_Sort_apkList thirteen_builds =
     [apk_of ''b12'' 2, apk_of ''b06'' 1, apk_of ''b02'' 1, apk_of ''b03'' 1, apk_of ''b04'' 1,
      apk_of ''b05'' 1, apk_of ''b00'' 1, apk_of ''b07'' 1, apk_of ''b08'' 1, apk_of ''b09'' 1,
      apk_of ''b10'' 1, apk_of ''b11'' 1, apk_of ''b01'' 1]"
  unfolding sort_Sort_apkList_def by (rule sort_thirteen_any_generator)

lemma sort_two: "sort_Sort_apkList two_builds = [apk_of ''x86'' 7, apk_of ''arm'' 7]"
  by code_simp


lemma sample_Decode_two:
  "sample_Decode two_builds_doc zero_Index = (zero_Index\<lparr>Apps := [two_builds_app]\<rparr>, None)"
  by (simp add: sample_Decode_def)

lemma sample_Decode_thirteen:
  "sample_Decode thirteen_builds_doc zero_Index = (zero_Index\<lparr>Apps := [thirteen_builds_app]\<rparr>, None)"
  by (simp add: sample_Decode_def thirteen_builds_doc_def two_builds_doc_def)

lemma sample_Decode_empty: "sample_Decode [] zero_Index = (zero_Index, Some EOF)"
  by (simp add: sample_Decode_def two_builds_doc_def thirteen_builds_doc_def stray_CurApk_doc_def
      bad_date_doc_def)

lemma sort_by_ID_single: "sort_by_ID [app] = [app]"
  by (simp add: sort_by_ID_def)

lemma sort_by_VCode_desc_two: "sort_by_VCode_desc two_builds = [apk_of ''x86'' 7, apk_of ''arm'' 7]"
  by (simp add: sort_by_VCode_desc_def two_builds_def VCode_apk_of)

lemma Apks_two_builds_app: "Apks two_builds_app = two_builds"
  by (simp add: two_builds_app_def)

lemma Apks_thirteen_builds_app: "Apks thirteen_builds_app = thirteen_builds"
  by (simp add: thirteen_builds_app_def)

lemma two_builds_loaded:
  "LoadIndexXml sample_Decode sort_by_ID sort_by_VCode_desc two_builds_doc
     = (Some (zero_Index\<lparr>Apps := [load_app sort_by_VCode_desc two_builds_app]\<rparr>), None)"
  using LoadIndexXml_ok [of sample_Decode two_builds_doc "zero_Index\<lparr>Apps := [two_builds_app]\<rparr>"
      sort_by_ID sort_by_VCode_desc] sample_Decode_two
  by (simp add: sort_by_ID_single)

lemma thirteen_builds_loaded:
  "LoadIndexXml sample_Decode sort_Sort_appList sort_Sort_apkList thirteen_builds_doc
     = (Some (zero_Index\<lparr>Apps := [load_app sort_Sort_apkList thirteen_builds_app]\<rparr>), None)"
  using LoadIndexXml_ok [of sample_Decode thirteen_builds_doc
      "zero_Index\<lparr>Apps := [thirteen_builds_app]\<rparr>" sort_Sort_appList sort_Sort_apkList]
    sample_Decode_thirteen
  by (simp add: sort_Sort_appList_single)

text \<open>
  C2, as amended. For sorts that meet the contract of \<open>sort.Sort\<close>: after
  \<open>LoadIndexXml\<close> succeeds, the packages of every app are sorted descending by version
  code, and the apps are the decoded apps, each with exactly its decoded packages.
  Nothing is promised on the order of packages of equal version code.
\<close>

theorem LoadIndexXml_sorts_packages:
  "sort_Sort_contract appList_Less sort_appList \<and> sort_Sort_contract apkList_Less sort_apkList
   \<and> decoder_Decode r zero_Index = (decoded, None) \<longrightarrow>
     (\<exists>index. LoadIndexXml decoder_Decode sort_appList sort_apkList r = (Some index, None)
        \<and> (\<forall>app \<in> set (Apps index). sorted_desc (Apks app))
        \<and> mset (Apps index) = image_mset (load_app sort_apkList) (mset (Apps decoded))
        \<and> (\<forall>app. mset (Apks (load_app sort_apkList app)) = mset (Apks app))
        \<and> (\<exists>apps. mset apps = mset (Apps decoded)
              \<and> list_all2 (\<lambda>d app. ID app = ID d \<and> mset (Apks app) = mset (Apks d)
                               \<and> sorted_desc (Apks app)) apps (Apps index)))"
proof
  assume a: "sort_Sort_contract appList_Less sort_appList \<and> sort_Sort_contract apkList_Less sort_apkList
   \<and> decoder_Decode r zero_Index = (decoded, None)"
  let ?index = "decoded\<lparr>Apps := map (load_app sort_apkList) (sort_appList (Apps decoded))\<rparr>"
  have 1: "LoadIndexXml decoder_Decode sort_appList sort_apkList r = (Some ?index, None)"
    using a by (simp add: LoadIndexXml_ok)
  have 2: "\<forall>app \<in> set (Apps ?index). sorted_desc (Apks app)"
    using a by (auto simp: Apks_load_app contract_sorted_desc)
  have m: "mset (sort_appList (Apps decoded)) = mset (Apps decoded)"
    using a by (simp add: sort_Sort_contract_def)
  then have 3: "mset (Apps ?index) = image_mset (load_app sort_apkList) (mset (Apps decoded))"
    by simp
  have 4: "\<forall>app. mset (Apks (load_app sort_apkList app)) = mset (Apks app)"
    using a by (simp add: Apks_load_app sort_Sort_contract_def)
  have "list_all2 (\<lambda>d app. ID app = ID d \<and> mset (Apks app) = mset (Apks d) \<and> sorted_desc (Apks app))
          (sort_appList (Apps decoded)) (Apps ?index)"
    using a 4 by (simp add: list_all2_map2 list_all2_same ID_load_app Apks_load_app
        contract_sorted_desc)
  with m have 5: "\<exists>apps. mset apps = mset (Apps decoded)
      \<and> list_all2 (\<lambda>d app. ID app = ID d \<and> mset (Apks app) = mset (Apks d) \<and> sorted_desc (Apks app))
           apps (Apps ?index)"
    by blast
  from 1 2 3 4 5 show "\<exists>index. LoadIndexXml decoder_Decode sort_appList sort_apkList r = (Some index, None)
        \<and> (\<forall>app \<in> set (Apps index). sorted_desc (Apks app))
        \<and> mset (Apps index) = image_mset (load_app sort_apkList) (mset (Apps decoded))
        \<and> (\<forall>app. mset (Apks (load_app sort_apkList app)) = mset (Apks app))
        \<and> (\<exists>apps. mset apps = mset (Apps decoded)
              \<and> list_all2 (\<lambda>d app. ID app = ID d \<and> mset (Apks app) = mset (Apks d)
                               \<and> sorted_desc (Apks app)) apps (Apps index))"
    by blast
qed

theorem LoadIndexXml_sorts_packages_witness:
  "sample_Decode two_builds_doc zero_Index = (zero_Index\<lparr>Apps := [two_builds_app]\<rparr>, None)
   \<and> LoadIndexXml sample_Decode sort_by_ID sort_by_VCode_desc two_builds_doc
       = (Some (zero_Index\<lparr>Apps := [load_app sort_by_VCode_desc two_builds_app]\<rparr>), None)
   \<and> Apks (load_app sort_by_VCode_desc two_builds_app) = [apk_of ''x86'' 7, apk_of ''arm'' 7]
   \<and> sorted_desc (Apks (load_app sort_by_VCode_desc two_builds_app))
   \<and> mset (Apks (load_app sort_by_VCode_desc two_builds_app)) = mset two_builds"
  using LoadIndexXml_sorts_packages [of sort_by_ID sort_by_VCode_desc sample_Decode two_builds_doc
      "zero_Index\<lparr>Apps := [two_builds_app]\<rparr>"]
    sort_by_ID_contract sort_by_VCode_desc_contract sample_Decode_two
  by (auto simp: two_builds_loaded Apks_two_builds_app Apks_load_app sort_by_VCode_desc_two)

lemma apk_of_neq: "apk_of ''b06'' 1 \<noteq> apk_of ''b00'' 1"
  by (simp add: apk_of_def zero_Apk_def)

text \<open>
  C2, as stated, fails: the sort is not stable. \<open>thirteen_builds_doc\<close> has twelve builds
  of version code 1 and then one of version code 2. \<open>sort.Sort\<close> sorts more than 12
  elements by partitioning: it finds the slice out of order at its last element, swaps
  the pivot \<open>b06\<close> to the front, then the build of version code 2 with \<open>b01\<close>, and puts
  the pivot second. The twelve builds of version code 1 come out in the order \<open>b06\<close>,
  \<open>b02\<close>, \<open>b03\<close>, \<open>b04\<close>, \<open>b05\<close>, \<open>b00\<close>, \<open>b07\<close>, ..., \<open>b11\<close>, \<open>b01\<close>, not in the
  order of the document.
\<close>

theorem stable_sort_counterexample:
  "sample_Decode thirteen_builds_doc zero_Index = (zero_Index\<lparr>Apps := [thirteen_builds_app]\<rparr>, None)
   \<and> Apks thirteen_builds_app = thirteen_builds
   \<and> LoadIndexXml sample_Decode sort_Sort_appList sort_Sort_apkList thirteen_builds_doc
       = (Some (zero_Index\<lparr>Apps := [load_app sort_Sort_apkList thirteen_builds_app]\<rparr>), None)
   \<and> Apks (load_app sort_Sort_apkList thirteen_builds_app) =
       [apk_of ''b12'' 2, apk_of ''b06'' 1, apk_of ''b02'' 1, apk_of ''b03'' 1, apk_of ''b04'' 1,
        apk_of ''b05'' 1, apk_of ''b00'' 1, apk_of ''b07'' 1, apk_of ''b08'' 1, apk_of ''b09'' 1,
        apk_of ''b10'' 1, apk_of ''b11'' 1, apk_of ''b01'' 1]
   \<and> \<not> encounter_order_kept (Apks thirteen_builds_app)
        (Apks (load_app sort_Sort_apkList thirteen_builds_app))"
proof -
  have r: "Apks (load_app sort_Sort_apkList thirteen_builds_app) =
       [apk_of ''b12'' 2, apk_of ''b06'' 1, apk_of ''b02'' 1, apk_of ''b03'' 1, apk_of ''b04'' 1,
        apk_of ''b05'' 1, apk_of ''b00'' 1, apk_of ''b07'' 1, apk_of ''b08'' 1, apk_of ''b09'' 1,
        apk_of ''b10'' 1, apk_of ''b11'' 1, apk_of ''b01'' 1]"
    by (simp only: Apks_load_app Apks_thirteen_builds_app sort_thirteen)
  have "\<not> encounter_order_kept thirteen_builds
       [apk_of ''b12'' 2, apk_of ''b06'' 1, apk_of ''b02'' 1, apk_of ''b03'' 1, apk_of ''b04'' 1,
        apk_of ''b05'' 1, apk_of ''b00'' 1, apk_of ''b07'' 1, apk_of ''b08'' 1, apk_of ''b09'' 1,
        apk_of ''b10'' 1, apk_of ''b11'' 1, apk_of ''b01'' 1]"
    using apk_of_neq
    by (simp add: encounter_order_kept_def thirteen_builds_def VCode_apk_of)
  with r show ?thesis
    using sample_Decode_thirteen thirteen_builds_loaded Apks_thirteen_builds_app
    by simp
qed

lemma bad_date: "DateVal_FromString ''2015-02-30'' = Inl (ParseError ''day out of range'')"
proof -
  have "list_all is_digit_char [CHR ''2'', CHR ''0'', CHR ''1'', CHR ''5'', CHR ''0'', CHR ''2'',
      CHR ''3'', CHR ''0'']"
    by (simp add: is_digit_char_def)
  from time_Parse_shape [OF this] show ?thesis
    by (simp add: DateVal_FromString_def date_of_def digit_vals daysIn_def isLeap_def Let_def)
qed

lemma bad_hex: "HexVal_FromString ''0g'' = Inl (InvalidByteError (CHR ''g''))"
  by (simp add: HexVal_FromString_def fromHexChar_def less_eq_char_def)

lemma sample_Decode_bad_date:
  "sample_Decode bad_date_doc zero_Index = (zero_Index, Some (ParseError ''day out of range''))"
  by (simp add: sample_Decode_def bad_date_doc_def two_builds_doc_def thirteen_builds_doc_def
      stray_CurApk_doc_def DateVal_UnmarshalXML_def bad_date)

text \<open>
  C3, as amended. \<open>LoadIndexXml\<close> is all-or-nothing. When the decoder returns an error,
  whatever it has written into the index by then, the result is no index and that very
  error, not wrapped. Otherwise the result is the normalized index and no error. The
  index is \<open>nil\<close> exactly when the error is not. The methods through which the decoder
  runs the scalar codecs return the error of \<open>FromString\<close> whenever it fails, and the
  error of reading the element when that fails.
\<close>

theorem LoadIndexXml_all_or_nothing:
  "(snd (decoder_Decode r zero_Index) = Some err \<longrightarrow>
      LoadIndexXml decoder_Decode sort_appList sort_apkList r = (None, Some err))
   \<and> (sort_Sort_contract appList_Less sort_appList \<and> sort_Sort_contract apkList_Less sort_apkList
       \<and> decoder_Decode r zero_Index = (decoded, None) \<longrightarrow>
      (\<exists>index. LoadIndexXml decoder_Decode sort_appList sort_apkList r = (Some index, None)
         \<and> index_normalized decoded index))
   \<and> (fst (LoadIndexXml decoder_Decode sort_appList sort_apkList r) = None
        \<longleftrightarrow> snd (LoadIndexXml decoder_Decode sort_appList sort_apkList r) \<noteq> None)
   \<and> (DateVal_FromString s = Inl err \<longrightarrow>
        DateVal_UnmarshalXML (Inr s) = Inl err \<and> DateVal_UnmarshalText s = Inl err)
   \<and> (HexVal_FromString s = Inl err \<longrightarrow>
        HexVal_UnmarshalXML (Inr s) = Inl err \<and> HexVal_UnmarshalText s = Inl err)
   \<and> DateVal_UnmarshalXML (Inl err) = Inl err
   \<and> HexVal_UnmarshalXML (Inl err) = Inl err
   \<and> CommaList_UnmarshalXML (Inl err) = Inl err"
proof -
  obtain index e where d: "decoder_Decode r zero_Index = (index, e)"
    by (cases "decoder_Decode r zero_Index")
  have 1: "snd (decoder_Decode r zero_Index) = Some err \<longrightarrow>
      LoadIndexXml decoder_Decode sort_appList sort_apkList r = (None, Some err)"
    using d by (auto simp: LoadIndexXml_err)
  have 2: "sort_Sort_contract appList_Less sort_appList \<and> sort_Sort_contract apkList_Less sort_apkList
       \<and> decoder_Decode r zero_Index = (decoded, None) \<longrightarrow>
      (\<exists>index. LoadIndexXml decoder_Decode sort_appList sort_apkList r = (Some index, None)
         \<and> index_normalized decoded index)"
    by (auto simp: LoadIndexXml_ok index_normalized_load)
  have 3: "fst (LoadIndexXml decoder_Decode sort_appList sort_apkList r) = None
        \<longleftrightarrow> snd (LoadIndexXml decoder_Decode sort_appList sort_apkList r) \<noteq> None"
    using d by (cases e) (simp_all add: LoadIndexXml_ok LoadIndexXml_err)
  have 4: "DateVal_FromString s = Inl err \<longrightarrow>
        DateVal_UnmarshalXML (Inr s) = Inl err \<and> DateVal_UnmarshalText s = Inl err"
    by (simp add: DateVal_UnmarshalXML_def DateVal_UnmarshalText_def)
  have 5: "HexVal_FromString s = Inl err \<longrightarrow>
        HexVal_UnmarshalXML (Inr s) = Inl err \<and> HexVal_UnmarshalText s = Inl err"
    by (simp add: HexVal_UnmarshalXML_def HexVal_UnmarshalText_def)
  have 6: "DateVal_UnmarshalXML (Inl err) = Inl err" "HexVal_UnmarshalXML (Inl err) = Inl err"
    "CommaList_UnmarshalXML (Inl err) = Inl err"
    by (simp_all add: DateVal_UnmarshalXML_def HexVal_UnmarshalXML_def CommaList_UnmarshalXML_def)
  from 1 2 3 4 5 6 show ?thesis
    by blast
qed

theorem LoadIndexXml_all_or_nothing_witness:
  "snd (sample_Decode bad_date_doc zero_Index) = Some (ParseError ''day out of range'')
   \<and> LoadIndexXml sample_Decode sort_by_ID sort_by_VCode_desc bad_date_doc
       = (None, Some (ParseError ''day out of range''))
   \<and> sample_Decode two_builds_doc zero_Index = (zero_Index\<lparr>Apps := [two_builds_app]\<rparr>, None)
   \<and> LoadIndexXml sample_Decode sort_by_ID sort_by_VCode_desc two_builds_doc
       = (Some (zero_Index\<lparr>Apps := [load_app sort_by_VCode_desc two_builds_app]\<rparr>), None)
   \<and> DateVal_FromString ''2015-02-30'' = Inl (ParseError ''day out of range'')
   \<and> DateVal_UnmarshalXML (Inr ''2015-02-30'') = Inl (ParseError ''day out of range'')
   \<and> HexVal_FromString ''0g'' = Inl (InvalidByteError (CHR ''g''))
   \<and> HexVal_UnmarshalXML (Inr ''0g'') = Inl (InvalidByteError (CHR ''g''))"
  using LoadIndexXml_all_or_nothing [of sample_Decode bad_date_doc "ParseError ''day out of range''"
      sort_by_ID sort_by_VCode_desc zero_Index "''2015-02-30''"]
    LoadIndexXml_all_or_nothing [of sample_Decode two_builds_doc "InvalidByteError (CHR ''g'')"
      sort_by_ID sort_by_VCode_desc "zero_Index\<lparr>Apps := [two_builds_app]\<rparr>" "''0g''"]
    sort_by_ID_contract sort_by_VCode_desc_contract
    sample_Decode_bad_date sample_Decode_two two_builds_loaded bad_date bad_hex
  by simp

text \<open>
  C3, as stated, fails in one part: the error is not a parse error wrapping the
  underlying failure. On the empty input the result is \<open>io.EOF\<close> itself, and on a
  document with a date that does not parse it is the \<open>*time.ParseError\<close> of
  \<open>DateVal.FromString\<close> itself.
\<close>

theorem error_not_wrapped_counterexample:
  "sample_Decode [] zero_Index = (zero_Index, Some EOF)
   \<and> LoadIndexXml sample_Decode sort_Sort_appList sort_Sort_apkList [] = (None, Some EOF)
   \<and> \<not> is_wrapper EOF
   \<and> DateVal_FromString ''2015-02-30'' = Inl (ParseError ''day out of range'')
   \<and> LoadIndexXml sample_Decode sort_Sort_appList sort_Sort_apkList bad_date_doc
       = (None, Some (ParseError ''day out of range''))
   \<and> \<not> is_wrapper (ParseError ''day out of range'')"
  using LoadIndexXml_err [of sample_Decode "[]" zero_Index EOF sort_Sort_appList sort_Sort_apkList]
    LoadIndexXml_err [of sample_Decode bad_date_doc zero_Index "ParseError ''day out of range''"
      sort_Sort_appList sort_Sort_apkList]
    sample_Decode_empty sample_Decode_bad_date bad_date
  by (simp add: is_wrapper_def)

end
